theory Spec2Isabelle
  imports Main "HOL-Library.Word"
begin

section \<open>The store: control blocks, resources, handles\<close>

text \<open>
  The header \<^verbatim>\<open>owned_pointer.hpp\<close> builds \<^verbatim>\<open>owned_pointer<T>\<close> on a
  \<^verbatim>\<open>std::shared_ptr<control_block>\<close>, where
  \<^verbatim>\<open>control_block = std::tuple<void*, bool, bool>\<close>.  Several handles alias one
  block and a resource may point back to its block through a \<^verbatim>\<open>std::weak_ptr\<close>, so the
  model keeps an explicit store.

  An address is a natural number and \<open>0\<close> is \<^verbatim>\<open>nullptr\<close>.  A control block is named by
  an identity that the store never hands out twice.  A \<^verbatim>\<open>shared_ptr\<close> or
  \<^verbatim>\<open>weak_ptr\<close> is \<open>None\<close> when empty and \<open>Some b\<close> when it refers to block \<open>b\<close>.
\<close>

type_synonym addr = nat
type_synonym block_id = nat
type_synonym shared_ptr = "block_id option"
type_synonym weak_ptr = "block_id option"

text \<open>The tuple \<^verbatim>\<open>(void*, bool, bool)\<close>, read with \<^verbatim>\<open>std::get<_ptr>\<close>,
  \<^verbatim>\<open>std::get<_acquired>\<close> and \<^verbatim>\<open>std::get<_deleted>\<close>.\<close>

record control_block =
  cb_ptr :: addr
  cb_acquired :: bool
  cb_deleted :: bool

text \<open>
  A resource on the free store.  \<open>secret\<close> is \<open>Some w\<close> when the dynamic type of the
  object is a \<^verbatim>\<open>destruction_notify_object\<close>, whose \<^verbatim>\<open>shared_secret\<close> base holds the
  weak pointer \<open>w\<close> (\<^verbatim>\<open>weak_control_block\<close>); it is \<open>None\<close> for any other object.
\<close>

record resource =
  secret :: "weak_ptr option"

text \<open>
  What the traits \<^verbatim>\<open>std::is_polymorphic\<close> and \<^verbatim>\<open>std::has_virtual_destructor\<close> say
  about the static element type of a handle.  A type with a virtual destructor is
  polymorphic, so there are three kinds.
\<close>

datatype kind = Plain | Polymorphic | Virtual_dtor

fun is_polymorphic :: "kind \<Rightarrow> bool" where
  "is_polymorphic Plain = False"
| "is_polymorphic Polymorphic = True"
| "is_polymorphic Virtual_dtor = True"

fun has_virtual_destructor :: "kind \<Rightarrow> bool" where
  "has_virtual_destructor Virtual_dtor = True"
| "has_virtual_destructor Plain = False"
| "has_virtual_destructor Polymorphic = False"

text \<open>
  The program state.  \<open>blocks\<close> holds the control blocks that still have a shared owner
  and \<open>objects\<close> the resources that have not been destroyed.  \<open>handles\<close> lists the
  \<^verbatim>\<open>owned_pointer\<close> objects of the program and \<open>uniques\<close> its
  \<^verbatim>\<open>std::unique_ptr\<close> objects, each named by its position; a destroyed or moved-from
  object stays in its list as the empty pointer, which owns nothing.  A block is owned by
  the handles that refer to it (\<^verbatim>\<open>use_count\<close>), and its deleter runs when the last of
  them lets go.
\<close>

record state =
  blocks :: "block_id \<rightharpoonup> control_block"
  objects :: "addr \<rightharpoonup> resource"
  handles :: "shared_ptr list"
  uniques :: "addr list"
  next_block :: block_id
  next_addr :: addr

definition init :: state where
  "init = \<lparr>blocks = Map.empty, objects = Map.empty, handles = [], uniques = [],
           next_block = 0, next_addr = 0\<rparr>"

definition use_count :: "state \<Rightarrow> shared_ptr \<Rightarrow> nat" where
  "use_count s h = (case h of None \<Rightarrow> 0 | Some b \<Rightarrow> count_list (handles s) (Some b))"

datatype error = unique_ptr_already_acquired | ptr_is_already_deleted

section \<open>The detail namespace\<close>

text \<open>\<^verbatim>\<open>weak_ptr::lock()\<close>: the block, when a shared owner keeps it alive.\<close>

definition lock :: "state \<Rightarrow> weak_ptr \<Rightarrow> shared_ptr" where
  "lock s w = (case w of None \<Rightarrow> None
     | Some b \<Rightarrow> (case blocks s b of None \<Rightarrow> None | Some cb \<Rightarrow> Some b))"

text \<open>Assignments through \<^verbatim>\<open>std::get<_acquired>(*p)\<close> and \<^verbatim>\<open>std::get<_deleted>(*p)\<close>.
  The source dereferences only non-empty pointers; the other branches leave the state as
  it is.\<close>

definition set_acquired :: "state \<Rightarrow> shared_ptr \<Rightarrow> bool \<Rightarrow> state" where
  "set_acquired s h v = (case h of None \<Rightarrow> s
     | Some b \<Rightarrow> (case blocks s b of None \<Rightarrow> s
         | Some cb \<Rightarrow> s\<lparr>blocks := (blocks s)(b \<mapsto> cb\<lparr>cb_acquired := v\<rparr>)\<rparr>))"

definition set_deleted :: "state \<Rightarrow> shared_ptr \<Rightarrow> bool \<Rightarrow> state" where
  "set_deleted s h v = (case h of None \<Rightarrow> s
     | Some b \<Rightarrow> (case blocks s b of None \<Rightarrow> s
         | Some cb \<Rightarrow> s\<lparr>blocks := (blocks s)(b \<mapsto> cb\<lparr>cb_deleted := v\<rparr>)\<rparr>))"

text \<open>\<^verbatim>\<open>shared_secret::delete_event\<close>:
  \<^verbatim>\<open>if(auto p = weak_control_block.lock()) std::get<_deleted>(*p) = true;\<close>\<close>

definition delete_event :: "state \<Rightarrow> weak_ptr \<Rightarrow> state" where
  "delete_event s w = (case lock s w of None \<Rightarrow> s | Some b \<Rightarrow> set_deleted s (Some b) True)"

text \<open>
  The delete expression on a resource pointer.  Deleting \<^verbatim>\<open>nullptr\<close> does nothing.
  Otherwise the destructor runs, which for a \<^verbatim>\<open>destruction_notify_object\<close> calls
  \<open>delete_event\<close>, and the object leaves the store.  Deleting an address that holds no
  object is undefined in C++; the model leaves the state as it is.
\<close>

definition delete_resource :: "state \<Rightarrow> addr \<Rightarrow> state" where
  "delete_resource s p =
     (if p = 0 then s
      else case objects s p of
        None \<Rightarrow> s
      | Some r \<Rightarrow>
          (let s1 = (case secret r of None \<Rightarrow> s | Some w \<Rightarrow> delete_event s w)
           in s1\<lparr>objects := (objects s1)(p := None)\<rparr>))"

text \<open>
  \<^verbatim>\<open>deleter<T>::operator()\<close>, which \<^verbatim>\<open>shared_ptr\<close> calls when the use count of block
  \<open>b\<close> has dropped to zero: from then on \<^verbatim>\<open>lock()\<close> fails, so the block leaves
  \<open>blocks\<close> first.  The resource is deleted when the block is not acquired; the tuple
  itself is freed by the local \<^verbatim>\<open>unique_ptr<control_block>\<close> in either case.
  (\<^verbatim>\<open>OWNED_BY_UNIQUE_ASSERT_DTOR\<close> is not defined.)
\<close>

definition deleter :: "state \<Rightarrow> block_id \<Rightarrow> state" where
  "deleter s b =
     (case blocks s b of
        None \<Rightarrow> s
      | Some cb \<Rightarrow>
          (let s1 = s\<lparr>blocks := (blocks s)(b := None)\<rparr>
           in if \<not> cb_acquired cb then delete_resource s1 (cb_ptr cb) else s1))"

text \<open>A \<^verbatim>\<open>shared_ptr\<close> with value \<open>h\<close> lets go (it was destroyed or assigned to): the
  deleter runs unless another handle of the program still owns the block.\<close>

definition release :: "state \<Rightarrow> shared_ptr \<Rightarrow> state" where
  "release s h = (case h of None \<Rightarrow> s
     | Some b \<Rightarrow> (if Some b \<in> set (handles s) then s else deleter s b))"

section \<open>The members of owned_pointer\<close>

text \<open>
  A member reads the block of its handle.  A \<^verbatim>\<open>shared_ptr\<close> keeps its block alive, so
  a handle of a program never names a block that is gone (\<open>handles_live\<close> below holds in
  every state a program reaches); for such a name the members answer as for the empty
  handle.
\<close>

definition get_pointer :: "state \<Rightarrow> shared_ptr \<Rightarrow> addr" where
  "get_pointer s h = (case h of None \<Rightarrow> 0
     | Some b \<Rightarrow> (case blocks s b of None \<Rightarrow> 0 | Some cb \<Rightarrow> cb_ptr cb))"

definition acquired :: "state \<Rightarrow> shared_ptr \<Rightarrow> bool" where
  "acquired s h = (case h of None \<Rightarrow> False
     | Some b \<Rightarrow> (case blocks s b of None \<Rightarrow> False | Some cb \<Rightarrow> cb_acquired cb))"

definition expired :: "state \<Rightarrow> shared_ptr \<Rightarrow> bool" where
  "expired s h = (case h of None \<Rightarrow> False
     | Some b \<Rightarrow> (case blocks s b of None \<Rightarrow> False | Some cb \<Rightarrow> cb_deleted cb))"

definition operator_bool :: "state \<Rightarrow> shared_ptr \<Rightarrow> bool" where
  "operator_bool s h = (get_pointer s h \<noteq> 0)"

text \<open>\<^verbatim>\<open>throw_if_is_destroyed_and_has_virtual_dtor\<close>, then the three accessors.  The
  reference that \<^verbatim>\<open>operator*\<close> returns is given by the address of its referent.\<close>

definition throw_if_is_destroyed_and_has_virtual_dtor :: "state \<Rightarrow> shared_ptr \<Rightarrow> error option" where
  "throw_if_is_destroyed_and_has_virtual_dtor s h =
     (if expired s h then Some ptr_is_already_deleted else None)"

definition get :: "state \<Rightarrow> shared_ptr \<Rightarrow> error + addr" where
  "get s h = (case throw_if_is_destroyed_and_has_virtual_dtor s h of
       Some e \<Rightarrow> Inl e | None \<Rightarrow> Inr (get_pointer s h))"

definition operator_arrow :: "state \<Rightarrow> shared_ptr \<Rightarrow> error + addr" where
  "operator_arrow s h = (case throw_if_is_destroyed_and_has_virtual_dtor s h of
       Some e \<Rightarrow> Inl e | None \<Rightarrow> Inr (get_pointer s h))"

definition operator_star :: "state \<Rightarrow> shared_ptr \<Rightarrow> error + addr" where
  "operator_star s h = (case throw_if_is_destroyed_and_has_virtual_dtor s h of
       Some e \<Rightarrow> Inl e | None \<Rightarrow> Inr (get_pointer s h))"

text \<open>\<^verbatim>\<open>owned_pointer::unique_ptr()\<close>: the address the returned \<^verbatim>\<open>std::unique_ptr\<close>
  holds, with the state after the call, or the exception.\<close>

definition unique_ptr :: "state \<Rightarrow> shared_ptr \<Rightarrow> error + (addr \<times> state)" where
  "unique_ptr s h =
     (if get_pointer s h \<noteq> 0 then
        (if \<not> acquired s h then Inr (get_pointer s h, set_acquired s h True)
         else Inl unique_ptr_already_acquired)
      else Inr (0, s))"

text \<open>
  The two overloads of \<^verbatim>\<open>get_secret_when_possible\<close>, chosen by
  \<^verbatim>\<open>std::is_polymorphic<T>\<close>.  The result is the \<^verbatim>\<open>shared_secret*\<close> (given by the
  address of the object it is a base of, \<open>None\<close> for \<^verbatim>\<open>nullptr\<close>) and the value
  of the handle's \<^verbatim>\<open>shared_ptr\<close> base afterwards, which is empty before the call.
  \<^verbatim>\<open>dynamic_cast\<close> yields \<^verbatim>\<open>nullptr\<close> on a null pointer and on an object that is
  no \<^verbatim>\<open>shared_secret\<close>.  On an address that holds no object the cast is undefined
  in C++; the model answers \<^verbatim>\<open>nullptr\<close>.
\<close>

definition get_secret_when_possible :: "state \<Rightarrow> kind \<Rightarrow> addr \<Rightarrow> addr option \<times> shared_ptr" where
  "get_secret_when_possible s k p =
     (if is_polymorphic k then
        (if p = 0 then (None, None)
         else case objects s p of
           None \<Rightarrow> (None, None)
         | Some r \<Rightarrow> (case secret r of
               None \<Rightarrow> (None, None)
             | Some w \<Rightarrow> (Some p, lock s w)))
      else (None, None))"

definition set_shared_secret_when_possible :: "state \<Rightarrow> addr option \<Rightarrow> shared_ptr \<Rightarrow> state" where
  "set_shared_secret_when_possible s ss h =
     (case ss of None \<Rightarrow> s
      | Some p \<Rightarrow> (case objects s p of None \<Rightarrow> s
          | Some r \<Rightarrow> s\<lparr>objects := (objects s)(p \<mapsto> r\<lparr>secret := Some h\<rparr>)\<rparr>))"

text \<open>\<^verbatim>\<open>new detail::control_block(p, {}, {})\<close>\<close>

definition new_control_block :: "addr \<Rightarrow> control_block" where
  "new_control_block p = \<lparr>cb_ptr = p, cb_acquired = False, cb_deleted = False\<rparr>"

text \<open>The private constructor \<^verbatim>\<open>owned_pointer(element_type* p, bool acquired)\<close>: the
  state after it and the value of the new handle.\<close>

definition owned_pointer_private :: "state \<Rightarrow> kind \<Rightarrow> addr \<Rightarrow> bool \<Rightarrow> state \<times> shared_ptr" where
  "owned_pointer_private s k p acq =
     (case get_secret_when_possible s k p of
        (ss, None) \<Rightarrow>
          (let b = next_block s;
               s1 = s\<lparr>blocks := (blocks s)(b \<mapsto> new_control_block p), next_block := Suc b\<rparr>;
               s2 = set_shared_secret_when_possible s1 ss (Some b)
           in (set_acquired s2 (Some b) acq, Some b))
      | (ss, Some b) \<Rightarrow> (set_acquired s (Some b) acq, Some b))"

section \<open>The operations of a program\<close>

text \<open>
  The public constructors and destructors, as statements of a program that keeps the
  object it creates: a new handle is appended to \<open>handles\<close> and a new
  \<^verbatim>\<open>unique_ptr\<close> to \<open>uniques\<close>.  Arguments \<open>i\<close> and \<open>j\<close> are positions in these
  lists.
\<close>

text \<open>\<^verbatim>\<open>owned_pointer()\<close> and \<^verbatim>\<open>owned_pointer(std::nullptr_t)\<close>\<close>

definition owned_pointer_null :: "state \<Rightarrow> state" where
  "owned_pointer_null s = s\<lparr>handles := handles s @ [None]\<rparr>"

text \<open>\<^verbatim>\<open>owned_pointer(std::unique_ptr<T> p)\<close> with the \<open>i\<close>-th \<^verbatim>\<open>unique_ptr\<close> moved
  into \<open>p\<close>; \<^verbatim>\<open>p.release()\<close> hands its address to the private constructor.\<close>

definition owned_pointer_from_unique :: "state \<Rightarrow> kind \<Rightarrow> nat \<Rightarrow> state" where
  "owned_pointer_from_unique s k i =
     (let p = uniques s ! i;
          s0 = s\<lparr>uniques := (uniques s)[i := 0]\<rparr>
      in case owned_pointer_private s0 k p False of
           (s1, h) \<Rightarrow> s1\<lparr>handles := handles s1 @ [h]\<rparr>)"

text \<open>\<^verbatim>\<open>detail::unique_ptr_link<_Tp>\<close>, with its one member \<^verbatim>\<open>_Tp* const _ptr\<close>.\<close>

record unique_ptr_link =
  link_ptr :: addr

text \<open>
  \<^verbatim>\<open>link(u)\<close> on the \<open>i\<close>-th \<^verbatim>\<open>std::unique_ptr<T>\<close>: the token is a
  \<^verbatim>\<open>unique_ptr_link<T>\<close>, whose constructor copies \<^verbatim>\<open>u.get()\<close>.
\<close>

definition link :: "state \<Rightarrow> nat \<Rightarrow> unique_ptr_link" where
  "link s i = \<lparr>link_ptr = uniques s ! i\<rparr>"

text \<open>
  \<^verbatim>\<open>link<R>(u)\<close>, the overload with two template arguments: the token is a
  \<^verbatim>\<open>unique_ptr_link<R>\<close> and its constructor converts \<^verbatim>\<open>u.get()\<close> from
  \<^verbatim>\<open>T*\<close> to \<^verbatim>\<open>R*\<close>.  The null pointer converts to the null pointer; any other
  pointer converts to the address of the \<open>R\<close> base of the object, which lies \<open>d\<close> past
  the address of the object, where \<open>d\<close> is fixed by the layout of \<open>T\<close> (it is \<open>0\<close>
  when \<open>R\<close> is \<open>T\<close> or a base that starts where \<open>T\<close> starts).
\<close>

definition link_as :: "state \<Rightarrow> nat \<Rightarrow> nat \<Rightarrow> unique_ptr_link" where
  "link_as s d i = \<lparr>link_ptr = (if uniques s ! i = 0 then 0 else uniques s ! i + d)\<rparr>"

text \<open>
  The move constructor \<^verbatim>\<open>unique_ptr_link(unique_ptr_link&&) = default\<close>: the member
  is a const pointer, so the new token takes a copy of it and the token moved from keeps
  what it had.  The result is the new token and the token moved from.
\<close>

definition unique_ptr_link_move :: "unique_ptr_link \<Rightarrow> unique_ptr_link \<times> unique_ptr_link" where
  "unique_ptr_link_move t = (\<lparr>link_ptr = link_ptr t\<rparr>, t)"

text \<open>\<^verbatim>\<open>owned_pointer(detail::unique_ptr_link<T>&& p)\<close>\<close>

definition owned_pointer_from_link :: "state \<Rightarrow> kind \<Rightarrow> unique_ptr_link \<Rightarrow> state" where
  "owned_pointer_from_link s k l =
     (case owned_pointer_private s k (link_ptr l) True of
        (s1, h) \<Rightarrow> s1\<lparr>handles := handles s1 @ [h]\<rparr>)"

text \<open>The copy constructor, from the \<open>j\<close>-th handle.  (A move is a copy followed by the
  destruction of its source, which then finds the block still owned.)\<close>

definition owned_pointer_copy :: "state \<Rightarrow> nat \<Rightarrow> state" where
  "owned_pointer_copy s j = s\<lparr>handles := handles s @ [handles s ! j]\<rparr>"

text \<open>\<^verbatim>\<open>operator=\<close>: the \<open>j\<close>-th handle takes the value of the \<open>k\<close>-th and lets go of
  its old block.\<close>

definition operator_assign :: "state \<Rightarrow> nat \<Rightarrow> nat \<Rightarrow> state" where
  "operator_assign s j k =
     (let old = handles s ! j;
          s1 = s\<lparr>handles := (handles s)[j := handles s ! k]\<rparr>
      in release s1 old)"

text \<open>The destructor of the \<open>j\<close>-th handle.\<close>

definition owned_pointer_destroy :: "state \<Rightarrow> nat \<Rightarrow> state" where
  "owned_pointer_destroy s j =
     (let old = handles s ! j;
          s1 = s\<lparr>handles := (handles s)[j := None]\<rparr>
      in release s1 old)"

text \<open>The destructor of the \<open>i\<close>-th \<^verbatim>\<open>unique_ptr\<close>, which deletes what it owns.\<close>

definition unique_ptr_destroy :: "state \<Rightarrow> nat \<Rightarrow> state" where
  "unique_ptr_destroy s i =
     (let p = uniques s ! i;
          s1 = s\<lparr>uniques := (uniques s)[i := 0]\<rparr>
      in delete_resource s1 p)"

text \<open>\<^verbatim>\<open>std::unique_ptr<T> u;\<close> and \<^verbatim>\<open>std::unique_ptr<T> u(new T);\<close>, the exclusive
  handles a program makes without this header.  The object of the second is a plain
  \<open>T\<close>.\<close>

definition unique_ptr_null :: "state \<Rightarrow> state" where
  "unique_ptr_null s = s\<lparr>uniques := uniques s @ [0]\<rparr>"

definition unique_ptr_new :: "state \<Rightarrow> state" where
  "unique_ptr_new s =
     (let p = Suc (next_addr s)
      in s\<lparr>objects := (objects s)(p \<mapsto> \<lparr>secret = None\<rparr>), next_addr := p,
           uniques := uniques s @ [p]\<rparr>)"

text \<open>
  \<^verbatim>\<open>make_owned<T>(args...)\<close>: \<^verbatim>\<open>new\<close> returns an address not used before, of a
  \<^verbatim>\<open>destruction_notify_object<T>\<close> (with an empty \<^verbatim>\<open>weak_control_block\<close>) when
  \<open>T\<close> has a virtual destructor and of a \<open>T\<close> otherwise; the temporary
  \<^verbatim>\<open>std::unique_ptr<T>\<close> converts to the handle.
\<close>

definition make_owned :: "state \<Rightarrow> kind \<Rightarrow> state" where
  "make_owned s k =
     (let p = Suc (next_addr s);
          r = \<lparr>secret = (if has_virtual_destructor k then Some None else None)\<rparr>;
          s0 = s\<lparr>objects := (objects s)(p \<mapsto> r), next_addr := p\<rparr>
      in case owned_pointer_private s0 k p False of
           (s1, h) \<Rightarrow> s1\<lparr>handles := handles s1 @ [h]\<rparr>)"

text \<open>\<^verbatim>\<open>auto u = p.unique_ptr();\<close> on the \<open>j\<close>-th handle: the result of the call (the
  address now held by the new \<^verbatim>\<open>unique_ptr\<close>, or the exception) and the state after it.
  An exception leaves the state as it was.\<close>

definition acquire :: "state \<Rightarrow> nat \<Rightarrow> (error + addr) \<times> state" where
  "acquire s j =
     (case unique_ptr s (handles s ! j) of
        Inl e \<Rightarrow> (Inl e, s)
      | Inr (p, s1) \<Rightarrow> (Inr p, s1\<lparr>uniques := uniques s1 @ [p]\<rparr>))"

text \<open>A program is a list of such statements.  A statement that names a position past the
  end of its list names no object and is skipped.  \<open>From_unique k i\<close> builds a handle
  from the \<open>i\<close>-th \<^verbatim>\<open>std::unique_ptr\<close> and \<open>From_link k i\<close> from the token
  \<open>link s i\<close> over it, which holds the address as the \<^verbatim>\<open>std::unique_ptr\<close> does;
  \<open>k\<close> tells what the traits say about the element type \<open>T\<close> of the constructor's
  argument, a \<^verbatim>\<open>std::unique_ptr<T>\<close> or a \<^verbatim>\<open>unique_ptr_link<T>\<close>.\<close>

datatype op =
    Null_handle
  | Null_unique
  | New_unique
  | Make_owned kind
  | From_unique kind nat
  | From_link kind nat
  | Copy nat
  | Assign nat nat
  | Acquire nat
  | Get nat
  | Destroy nat
  | Destroy_unique nat

fun step :: "state \<Rightarrow> op \<Rightarrow> state" where
  "step s Null_handle = owned_pointer_null s"
| "step s Null_unique = unique_ptr_null s"
| "step s New_unique = unique_ptr_new s"
| "step s (Make_owned k) = make_owned s k"
| "step s (From_unique k i) =
     (if i < length (uniques s) then owned_pointer_from_unique s k i else s)"
| "step s (From_link k i) =
     (if i < length (uniques s) then owned_pointer_from_link s k (link s i) else s)"
| "step s (Copy j) = (if j < length (handles s) then owned_pointer_copy s j else s)"
| "step s (Assign j k) =
     (if j < length (handles s) \<and> k < length (handles s) then operator_assign s j k else s)"
| "step s (Acquire j) = (if j < length (handles s) then snd (acquire s j) else s)"
| "step s (Get j) = s"
| "step s (Destroy j) = (if j < length (handles s) then owned_pointer_destroy s j else s)"
| "step s (Destroy_unique i) =
     (if i < length (uniques s) then unique_ptr_destroy s i else s)"

definition run :: "state \<Rightarrow> op list \<Rightarrow> state" where
  "run s ops = foldl step s ops"

section \<open>Comparison\<close>

text \<open>\<^verbatim>\<open>compare(const void*)\<close> and \<^verbatim>\<open>compare(const owned_pointer<T>&)\<close> return a
  \<^verbatim>\<open>std::int8_t\<close>; the operators read it as a signed value.\<close>

definition compare_ptr :: "state \<Rightarrow> shared_ptr \<Rightarrow> addr \<Rightarrow> 8 word" where
  "compare_ptr s h p =
     (let a = get_pointer s h in if a = p then 0 else (if a < p then - 1 else 1))"

definition compare :: "state \<Rightarrow> shared_ptr \<Rightarrow> shared_ptr \<Rightarrow> 8 word" where
  "compare s h p = compare_ptr s h (get_pointer s p)"

text \<open>The operators between two handles.\<close>

definition op_eq :: "state \<Rightarrow> shared_ptr \<Rightarrow> shared_ptr \<Rightarrow> bool" where
  "op_eq s p1 p2 = (sint (compare s p1 p2) = 0)"

definition op_ne :: "state \<Rightarrow> shared_ptr \<Rightarrow> shared_ptr \<Rightarrow> bool" where
  "op_ne s p1 p2 = (\<not> op_eq s p1 p2)"

definition op_lt :: "state \<Rightarrow> shared_ptr \<Rightarrow> shared_ptr \<Rightarrow> bool" where
  "op_lt s p1 p2 = (sint (compare s p1 p2) < 0)"

definition op_le :: "state \<Rightarrow> shared_ptr \<Rightarrow> shared_ptr \<Rightarrow> bool" where
  "op_le s p1 p2 = (sint (compare s p1 p2) \<le> 0)"

definition op_gt :: "state \<Rightarrow> shared_ptr \<Rightarrow> shared_ptr \<Rightarrow> bool" where
  "op_gt s p1 p2 = (sint (compare s p1 p2) > 0)"

definition op_ge :: "state \<Rightarrow> shared_ptr \<Rightarrow> shared_ptr \<Rightarrow> bool" where
  "op_ge s p1 p2 = (sint (compare s p1 p2) \<ge> 0)"

text \<open>Against \<^verbatim>\<open>nullptr\<close>, on either side.\<close>

definition op_eq_null :: "state \<Rightarrow> shared_ptr \<Rightarrow> bool" where
  "op_eq_null s p1 = (sint (compare_ptr s p1 0) = 0)"

definition op_ne_null :: "state \<Rightarrow> shared_ptr \<Rightarrow> bool" where
  "op_ne_null s p1 = (sint (compare_ptr s p1 0) \<noteq> 0)"

definition null_op_eq :: "state \<Rightarrow> shared_ptr \<Rightarrow> bool" where
  "null_op_eq s p1 = op_eq_null s p1"

definition null_op_ne :: "state \<Rightarrow> shared_ptr \<Rightarrow> bool" where
  "null_op_ne s p1 = op_ne_null s p1"

text \<open>Against a raw pointer, on either side; the handle is always the one that compares.\<close>

definition op_eq_raw :: "state \<Rightarrow> shared_ptr \<Rightarrow> addr \<Rightarrow> bool" where
  "op_eq_raw s p1 p2 = (sint (compare_ptr s p1 p2) = 0)"

definition raw_op_eq :: "state \<Rightarrow> addr \<Rightarrow> shared_ptr \<Rightarrow> bool" where
  "raw_op_eq s p1 p2 = (sint (compare_ptr s p2 p1) = 0)"

definition op_ne_raw :: "state \<Rightarrow> shared_ptr \<Rightarrow> addr \<Rightarrow> bool" where
  "op_ne_raw s p1 p2 = (sint (compare_ptr s p1 p2) \<noteq> 0)"

definition raw_op_ne :: "state \<Rightarrow> addr \<Rightarrow> shared_ptr \<Rightarrow> bool" where
  "raw_op_ne s p1 p2 = (sint (compare_ptr s p2 p1) \<noteq> 0)"

text \<open>Against the \<open>i\<close>-th \<^verbatim>\<open>std::unique_ptr\<close>, through its \<^verbatim>\<open>get()\<close>.\<close>

definition op_eq_unique :: "state \<Rightarrow> shared_ptr \<Rightarrow> nat \<Rightarrow> bool" where
  "op_eq_unique s p1 i = (sint (compare_ptr s p1 (uniques s ! i)) = 0)"

definition unique_op_eq :: "state \<Rightarrow> nat \<Rightarrow> shared_ptr \<Rightarrow> bool" where
  "unique_op_eq s i p2 = (sint (compare_ptr s p2 (uniques s ! i)) = 0)"

definition op_ne_unique :: "state \<Rightarrow> shared_ptr \<Rightarrow> nat \<Rightarrow> bool" where
  "op_ne_unique s p1 i = (sint (compare_ptr s p1 (uniques s ! i)) \<noteq> 0)"

definition unique_op_ne :: "state \<Rightarrow> nat \<Rightarrow> shared_ptr \<Rightarrow> bool" where
  "unique_op_ne s i p2 = (sint (compare_ptr s p2 (uniques s ! i)) \<noteq> 0)"

section \<open>Programs that keep to the types, and invariants of the store\<close>

text \<open>The resource at an address carries a \<^verbatim>\<open>shared_secret\<close>.\<close>

definition has_beacon :: "state \<Rightarrow> addr \<Rightarrow> bool" where
  "has_beacon s a = (case objects s a of None \<Rightarrow> False | Some r \<Rightarrow> secret r \<noteq> None)"

text \<open>
  A statement is \<open>typed\<close> for the resource at address \<open>a\<close> when a handle it builds over
  that resource, if the resource carries a \<^verbatim>\<open>shared_secret\<close>, has a polymorphic
  element type, as every type with a virtual destructor is.  A statement that builds no
  handle over the resource at \<open>a\<close> is typed for it.  \<open>typed_run\<close> asks this of each
  statement of a program, in the state the statement meets.
\<close>

fun typed :: "state \<Rightarrow> addr \<Rightarrow> op \<Rightarrow> bool" where
  "typed s a (From_unique k i) =
     (if i < length (uniques s) \<and> uniques s ! i = a \<and> has_beacon s a
      then is_polymorphic k else True)"
| "typed s a (From_link k i) =
     (if i < length (uniques s) \<and> uniques s ! i = a \<and> has_beacon s a
      then is_polymorphic k else True)"
| "typed s a x = True"

fun typed_run :: "state \<Rightarrow> addr \<Rightarrow> op list \<Rightarrow> bool" where
  "typed_run s a [] = True"
| "typed_run s a (x # xs) = (typed s a x \<and> typed_run (step s x) a xs)"

text \<open>
  A statement \<open>rewraps\<close> block \<open>b\<close> when it builds a handle from a \<^verbatim>\<open>unique_ptr\<close>
  whose resource still resolves to \<open>b\<close>, a live control block, so that the private
  constructor attaches to \<open>b\<close>.  \<open>no_rewrap\<close> says that no statement of a program does
  this to \<open>b\<close>.
\<close>

fun rewraps :: "state \<Rightarrow> block_id \<Rightarrow> op \<Rightarrow> bool" where
  "rewraps s b (From_unique k i) =
     (i < length (uniques s) \<and> snd (get_secret_when_possible s k (uniques s ! i)) = Some b)"
| "rewraps s b x = False"

fun no_rewrap :: "state \<Rightarrow> block_id \<Rightarrow> op list \<Rightarrow> bool" where
  "no_rewrap s b [] = True"
| "no_rewrap s b (x # xs) = (\<not> rewraps s b x \<and> no_rewrap (step s x) b xs)"

text \<open>
  Invariants of the states a program reaches.  \<open>fresh\<close>: identities and addresses past
  the counters are unused, and \<^verbatim>\<open>nullptr\<close> holds no object.  \<open>bounded\<close>: every address
  held by a block or a \<^verbatim>\<open>unique_ptr\<close> has been handed out.  \<open>handles_live\<close>: every
  handle refers to a live block.  \<open>beacon_inv s a\<close>: if the resource at \<open>a\<close> is live
  and carries a \<^verbatim>\<open>shared_secret\<close>, every live block over it is the block its weak
  pointer names.
\<close>

definition fresh :: "state \<Rightarrow> bool" where
  "fresh s = ((\<forall>b. next_block s \<le> b \<longrightarrow> blocks s b = None) \<and>
              (\<forall>a. next_addr s < a \<longrightarrow> objects s a = None) \<and>
              objects s 0 = None)"

definition bounded :: "state \<Rightarrow> bool" where
  "bounded s = ((\<forall>b cb. blocks s b = Some cb \<longrightarrow> cb_ptr cb \<le> next_addr s) \<and>
                (\<forall>a \<in> set (uniques s). a \<le> next_addr s))"

definition handles_live :: "state \<Rightarrow> bool" where
  "handles_live s = (\<forall>b. Some b \<in> set (handles s) \<longrightarrow> blocks s b \<noteq> None)"

definition wf :: "state \<Rightarrow> bool" where
  "wf s = (fresh s \<and> bounded s \<and> handles_live s)"

definition beacon_inv :: "state \<Rightarrow> addr \<Rightarrow> bool" where
  "beacon_inv s a =
     (\<forall>r w b cb. objects s a = Some r \<longrightarrow> secret r = Some w \<longrightarrow>
        blocks s b = Some cb \<longrightarrow> cb_ptr cb = a \<longrightarrow> w = Some b)"

text \<open>
  \<open>evolves s s'\<close>: from \<open>s\<close> to \<open>s'\<close> no handle, \<^verbatim>\<open>unique_ptr\<close> or counter changed, no
  resource and no block appeared, and a block that is still there kept its address and
  its acquired flag, and its deleted flag if that was set.  This is all that destroying
  resources and blocks can do.
\<close>

definition evolves :: "state \<Rightarrow> state \<Rightarrow> bool" where
  "evolves s s' =
     (handles s' = handles s \<and> uniques s' = uniques s \<and>
      next_block s' = next_block s \<and> next_addr s' = next_addr s \<and>
      (\<forall>a r. objects s' a = Some r \<longrightarrow> objects s a = Some r) \<and>
      (\<forall>b cb'. blocks s' b = Some cb' \<longrightarrow>
         (\<exists>cb. blocks s b = Some cb \<and> cb_ptr cb' = cb_ptr cb \<and>
               cb_acquired cb' = cb_acquired cb \<and> (cb_deleted cb \<longrightarrow> cb_deleted cb'))))"

text \<open>
  Ownership.  \<open>weak_bounded\<close> and \<open>weak_back\<close>: a weak pointer names an identity that
  has been handed out, and the block it names, while live, points back to the resource.
  \<open>owned\<close>: no two \<^verbatim>\<open>unique_ptr\<close> objects hold the same resource; a resource held by a
  \<^verbatim>\<open>unique_ptr\<close> is live and every block over it is acquired; the resource of a block
  that is not acquired is live and every other block over it is acquired.  So each
  resource has at most one owner, and what an owner would delete is there.
\<close>

definition weak_bounded :: "state \<Rightarrow> bool" where
  "weak_bounded s =
     (\<forall>a r b. objects s a = Some r \<longrightarrow> secret r = Some (Some b) \<longrightarrow> b < next_block s)"

definition weak_back :: "state \<Rightarrow> bool" where
  "weak_back s =
     (\<forall>a r b cb. objects s a = Some r \<longrightarrow> secret r = Some (Some b) \<longrightarrow>
        blocks s b = Some cb \<longrightarrow> cb_ptr cb = a)"

definition owned :: "state \<Rightarrow> bool" where
  "owned s =
     (distinct (filter (\<lambda>a. 0 < a) (uniques s)) \<and>
      (\<forall>a \<in> set (uniques s). a \<noteq> 0 \<longrightarrow>
         objects s a \<noteq> None \<and>
         (\<forall>b cb. blocks s b = Some cb \<longrightarrow> cb_ptr cb = a \<longrightarrow> cb_acquired cb)) \<and>
      (\<forall>b cb. blocks s b = Some cb \<longrightarrow> \<not> cb_acquired cb \<longrightarrow> cb_ptr cb \<noteq> 0 \<longrightarrow>
         objects s (cb_ptr cb) \<noteq> None \<and>
         (\<forall>b' cb'. blocks s b' = Some cb' \<longrightarrow> cb_ptr cb' = cb_ptr cb \<longrightarrow> b' \<noteq> b \<longrightarrow>
            cb_acquired cb')))"

definition safe :: "state \<Rightarrow> bool" where
  "safe s = (wf s \<and> weak_bounded s \<and> weak_back s \<and> owned s)"

section \<open>Unfolding the members\<close>

lemmas member_defs = get_pointer_def acquired_def expired_def set_acquired_def set_deleted_def
  lock_def throw_if_is_destroyed_and_has_virtual_dtor_def

lemmas ctor_defs = owned_pointer_private_def get_secret_when_possible_def
  set_shared_secret_when_possible_def new_control_block_def

section \<open>Dereferencing and the queries\<close>

text \<open>
  Claim C4.  \<^verbatim>\<open>get()\<close>, \<^verbatim>\<open>operator->\<close> and \<^verbatim>\<open>operator*\<close> throw
  \<open>ptr_is_already_deleted\<close> exactly when the deleted flag of the handle's block is set,
  and return the address stored in the block otherwise; on an empty handle, which has no
  block, they return the null address.  The result is a function of the state at the call,
  so the flag is read at every access.  \<^verbatim>\<open>acquired()\<close> and \<^verbatim>\<open>expired()\<close> have no
  exceptional result: they are the two flags of the block.
\<close>

theorem get_throws_iff_deleted:
  "get s None = Inr 0 \<and> operator_arrow s None = Inr 0 \<and> operator_star s None = Inr 0 \<and>
   \<not> acquired s None \<and> \<not> expired s None \<and>
   (blocks s b = Some cb \<longrightarrow>
      expired s (Some b) = cb_deleted cb \<and>
      acquired s (Some b) = cb_acquired cb \<and>
      get s (Some b) =
        (if cb_deleted cb then Inl ptr_is_already_deleted else Inr (cb_ptr cb)) \<and>
      operator_arrow s (Some b) =
        (if cb_deleted cb then Inl ptr_is_already_deleted else Inr (cb_ptr cb)) \<and>
      operator_star s (Some b) =
        (if cb_deleted cb then Inl ptr_is_already_deleted else Inr (cb_ptr cb)))"
  by (simp add: get_def operator_arrow_def operator_star_def member_defs)

text \<open>The same handle before and after its resource is destroyed through the exclusive
  handle: the first access returns the address, the later ones throw.\<close>

theorem get_throws_iff_deleted_witness:
  "blocks (run init [Make_owned Virtual_dtor, Acquire 0]) 0
     = Some \<lparr>cb_ptr = 1, cb_acquired = True, cb_deleted = False\<rparr> \<and>
   get (run init [Make_owned Virtual_dtor, Acquire 0]) (Some 0) = Inr 1 \<and>
   blocks (run init [Make_owned Virtual_dtor, Acquire 0, Destroy_unique 0]) 0
     = Some \<lparr>cb_ptr = 1, cb_acquired = True, cb_deleted = True\<rparr> \<and>
   get (run init [Make_owned Virtual_dtor, Acquire 0, Destroy_unique 0]) (Some 0)
     = Inl ptr_is_already_deleted \<and>
   operator_star (run init [Make_owned Virtual_dtor, Acquire 0, Destroy_unique 0, Get 0])
       (Some 0)
     = Inl ptr_is_already_deleted"
  using get_throws_iff_deleted [of "run init [Make_owned Virtual_dtor, Acquire 0]" 0
          "\<lparr>cb_ptr = 1, cb_acquired = True, cb_deleted = False\<rparr>"]
        get_throws_iff_deleted [of "run init [Make_owned Virtual_dtor, Acquire 0, Destroy_unique 0]" 0
          "\<lparr>cb_ptr = 1, cb_acquired = True, cb_deleted = True\<rparr>"]
  by (simp add: run_def init_def make_owned_def ctor_defs acquire_def unique_ptr_def
      unique_ptr_destroy_def delete_resource_def delete_event_def get_def operator_star_def
      member_defs)

section \<open>Link tokens\<close>

text \<open>
  Claim C6, as amended.  The handle built from a link token reports \<^verbatim>\<open>acquired()\<close>
  at once, whatever the state, the element type and the address the token holds (so for
  the tokens of both overloads of \<^verbatim>\<open>link\<close>), and so also in a program that never
  called \<^verbatim>\<open>unique_ptr()\<close>.  Building the handle leaves every \<^verbatim>\<open>std::unique_ptr\<close>
  of the program as it was, so that a token taken from it afterwards is the same, and
  destroys no resource.  The token of \<^verbatim>\<open>link(u)\<close> holds the address of \<open>u\<close>, and
  so does the token of \<^verbatim>\<open>link<R>(u)\<close> for a base at the start of the object; for
  another base it holds the address of that base, and the null pointer when \<open>u\<close> is
  empty.  Moving a token gives a token with the same address and leaves the token moved
  from as it was, and a second handle built from the same token reports
  \<^verbatim>\<open>acquired()\<close> as well.
\<close>

theorem link_is_acquired:
  "handles (owned_pointer_from_link s k t)
     = handles s @ [last (handles (owned_pointer_from_link s k t))] \<and>
   acquired (owned_pointer_from_link s k t) (last (handles (owned_pointer_from_link s k t))) \<and>
   uniques (owned_pointer_from_link s k t) = uniques s \<and>
   link (owned_pointer_from_link s k t) i = link s i \<and>
   link_as (owned_pointer_from_link s k t) d i = link_as s d i \<and>
   (objects (owned_pointer_from_link s k t) a = None) = (objects s a = None) \<and>
   link_ptr (link s i) = uniques s ! i \<and>
   link_as s 0 i = link s i \<and>
   link_ptr (link_as s d i) = (if uniques s ! i = 0 then 0 else uniques s ! i + d) \<and>
   unique_ptr_link_move t = (t, t) \<and>
   acquired (owned_pointer_from_link (owned_pointer_from_link s k t) k' t)
     (last (handles (owned_pointer_from_link (owned_pointer_from_link s k t) k' t))) \<and>
   uniques (run init [New_unique, From_link Plain 0]) = [1] \<and>
   handles (run init [New_unique, From_link Plain 0]) = [Some 0] \<and>
   acquired (run init [New_unique, From_link Plain 0]) (Some 0)"
proof -
  have one: "handles (owned_pointer_from_link s k t)
     = handles s @ [last (handles (owned_pointer_from_link s k t))] \<and>
   acquired (owned_pointer_from_link s k t) (last (handles (owned_pointer_from_link s k t))) \<and>
   uniques (owned_pointer_from_link s k t) = uniques s \<and>
   (objects (owned_pointer_from_link s k t) a = None) = (objects s a = None)" for s k t a
    by (simp add: owned_pointer_from_link_def ctor_defs member_defs Let_def
        split: option.splits)
  have tok: "link_ptr (link s i) = uniques s ! i \<and> link_as s 0 i = link s i \<and>
      link_ptr (link_as s d i) = (if uniques s ! i = 0 then 0 else uniques s ! i + d) \<and>
      unique_ptr_link_move t = (t, t)"
    by (simp add: link_def link_as_def unique_ptr_link_move_def)
  have same: "link (owned_pointer_from_link s k t) i = link s i \<and>
      link_as (owned_pointer_from_link s k t) d i = link_as s d i"
    using one [of s k t] by (simp add: link_def link_as_def)
  have run: "uniques (run init [New_unique, From_link Plain 0]) = [1] \<and>
   handles (run init [New_unique, From_link Plain 0]) = [Some 0] \<and>
   acquired (run init [New_unique, From_link Plain 0]) (Some 0)"
    by (simp add: owned_pointer_from_link_def link_def run_def init_def unique_ptr_new_def
        ctor_defs member_defs Let_def)
  show ?thesis
    using one [of s k t a] one [of "owned_pointer_from_link s k t" k' t a] tok same run
    by simp
qed

text \<open>
  Claim C6 as stated asks the token to be movable once.  A token is taken from a
  \<^verbatim>\<open>std::unique_ptr\<close> and moved: the new token and the token moved from both hold the
  address, a handle is built from each, and both handles report \<^verbatim>\<open>acquired()\<close> and
  return the address.
\<close>

theorem link_token_used_twice:
  "link (run init [New_unique]) 0 = \<lparr>link_ptr = 1\<rparr> \<and>
   unique_ptr_link_move (link (run init [New_unique]) 0)
     = (\<lparr>link_ptr = 1\<rparr>, \<lparr>link_ptr = 1\<rparr>) \<and>
   handles (owned_pointer_from_link
       (owned_pointer_from_link (run init [New_unique]) Plain
          (fst (unique_ptr_link_move (link (run init [New_unique]) 0))))
       Plain (snd (unique_ptr_link_move (link (run init [New_unique]) 0))))
     = [Some 0, Some 1] \<and>
   acquired (owned_pointer_from_link
       (owned_pointer_from_link (run init [New_unique]) Plain
          (fst (unique_ptr_link_move (link (run init [New_unique]) 0))))
       Plain (snd (unique_ptr_link_move (link (run init [New_unique]) 0)))) (Some 0) \<and>
   acquired (owned_pointer_from_link
       (owned_pointer_from_link (run init [New_unique]) Plain
          (fst (unique_ptr_link_move (link (run init [New_unique]) 0))))
       Plain (snd (unique_ptr_link_move (link (run init [New_unique]) 0)))) (Some 1) \<and>
   get (owned_pointer_from_link
       (owned_pointer_from_link (run init [New_unique]) Plain
          (fst (unique_ptr_link_move (link (run init [New_unique]) 0))))
       Plain (snd (unique_ptr_link_move (link (run init [New_unique]) 0)))) (Some 0) = Inr 1 \<and>
   get (owned_pointer_from_link
       (owned_pointer_from_link (run init [New_unique]) Plain
          (fst (unique_ptr_link_move (link (run init [New_unique]) 0))))
       Plain (snd (unique_ptr_link_move (link (run init [New_unique]) 0)))) (Some 1) = Inr 1"
  by (simp add: run_def init_def unique_ptr_new_def link_def unique_ptr_link_move_def
      owned_pointer_from_link_def ctor_defs get_def member_defs)

text \<open>
  Claim C10.  The handle built from a token over an empty \<^verbatim>\<open>std::unique_ptr\<close> returns
  the null address from \<^verbatim>\<open>get()\<close>, converts to \<open>False\<close>, and reports
  \<^verbatim>\<open>acquired()\<close>; a default-constructed handle differs from it only in reporting
  \<^verbatim>\<open>acquired()\<close> false.
\<close>

theorem link_of_null_is_acquired:
  "uniques s ! i = 0 \<longrightarrow>
     handles (owned_pointer_from_link s k (link s i))
       = handles s @ [last (handles (owned_pointer_from_link s k (link s i)))] \<and>
     get (owned_pointer_from_link s k (link s i))
       (last (handles (owned_pointer_from_link s k (link s i)))) = Inr 0 \<and>
     \<not> operator_bool (owned_pointer_from_link s k (link s i))
       (last (handles (owned_pointer_from_link s k (link s i)))) \<and>
     acquired (owned_pointer_from_link s k (link s i))
       (last (handles (owned_pointer_from_link s k (link s i)))) \<and>
     handles (owned_pointer_null s) = handles s @ [None] \<and>
     get (owned_pointer_null s) None = Inr 0 \<and>
     \<not> operator_bool (owned_pointer_null s) None \<and>
     \<not> acquired (owned_pointer_null s) None"
  by (simp add: owned_pointer_from_link_def link_def owned_pointer_null_def operator_bool_def
      ctor_defs get_def member_defs Let_def)

theorem link_of_null_is_acquired_witness:
  "uniques (run init [Null_unique]) ! 0 = 0 \<and>
   handles (owned_pointer_from_link (run init [Null_unique]) Virtual_dtor
       (link (run init [Null_unique]) 0)) = [Some 0] \<and>
   get (owned_pointer_from_link (run init [Null_unique]) Virtual_dtor
       (link (run init [Null_unique]) 0)) (Some 0) = Inr 0 \<and>
   acquired (owned_pointer_from_link (run init [Null_unique]) Virtual_dtor
       (link (run init [Null_unique]) 0)) (Some 0)"
  using link_of_null_is_acquired [of "run init [Null_unique]" 0 Virtual_dtor]
  by (simp add: run_def init_def unique_ptr_null_def owned_pointer_from_link_def link_def
      ctor_defs get_def member_defs)

section \<open>The factory\<close>

text \<open>
  Claim C7.  After \<^verbatim>\<open>make_owned\<close>, in any state and for any element type, the new
  handle is the last one; \<^verbatim>\<open>get()\<close> on it returns the address of the new resource,
  which is not null, \<^verbatim>\<open>unique_ptr()\<close> called on it next returns an exclusive handle
  with that same address, and \<^verbatim>\<open>get()\<close> still returns it afterwards.
\<close>

theorem make_owned_round_trip:
  "handles (make_owned s k) = handles s @ [last (handles (make_owned s k))] \<and>
   get (make_owned s k) (last (handles (make_owned s k))) = Inr (Suc (next_addr s)) \<and>
   fst (acquire (make_owned s k) (length (handles s))) = Inr (Suc (next_addr s)) \<and>
   last (uniques (snd (acquire (make_owned s k) (length (handles s))))) = Suc (next_addr s) \<and>
   get (snd (acquire (make_owned s k) (length (handles s)))) (last (handles (make_owned s k)))
     = Inr (Suc (next_addr s))"
  by (cases k)
     (simp_all add: make_owned_def ctor_defs acquire_def unique_ptr_def get_def member_defs
        nth_append Let_def)

section \<open>Comparison operators\<close>

lemma sint_compare_ptr:
  "sint (compare_ptr s h p) =
     (if get_pointer s h = p then 0 else if get_pointer s h < p then - 1 else 1)"
  by (simp add: compare_ptr_def Let_def)

lemmas op_defs = op_eq_def op_ne_def op_lt_def op_le_def op_gt_def op_ge_def
  op_eq_null_def op_ne_null_def null_op_eq_def null_op_ne_def
  op_eq_raw_def raw_op_eq_def op_ne_raw_def raw_op_ne_def
  op_eq_unique_def unique_op_eq_def op_ne_unique_def unique_op_ne_def

text \<open>
  Claim C8.  \<^verbatim>\<open>compare\<close> returns \<open>0\<close> when the two addresses are equal (two empty
  handles among them), \<open>-1\<close> when the address of the handle is the lower one and \<open>1\<close>
  when it is the higher one.  The operators between handles are equality and the order of
  the addresses, so \<^verbatim>\<open><\<close> is irreflexive, transitive and total.  The operators against a
  raw pointer, \<^verbatim>\<open>nullptr\<close> or a \<^verbatim>\<open>std::unique_ptr\<close> agree with those between
  handles.  They read the state and return a truth value only.
\<close>

theorem compare_orders_addresses:
  "sint (compare s p q) =
     (if get_pointer s p = get_pointer s q then 0
      else if get_pointer s p < get_pointer s q then - 1 else 1) \<and>
   sint (compare_ptr s p a) =
     (if get_pointer s p = a then 0 else if get_pointer s p < a then - 1 else 1) \<and>
   sint (compare s None None) = 0 \<and>
   op_eq s p q = (get_pointer s p = get_pointer s q) \<and>
   op_ne s p q = (get_pointer s p \<noteq> get_pointer s q) \<and>
   op_lt s p q = (get_pointer s p < get_pointer s q) \<and>
   op_le s p q = (get_pointer s p \<le> get_pointer s q) \<and>
   op_gt s p q = (get_pointer s p > get_pointer s q) \<and>
   op_ge s p q = (get_pointer s p \<ge> get_pointer s q) \<and>
   \<not> op_lt s p p \<and>
   (op_lt s p q \<longrightarrow> op_lt s q r \<longrightarrow> op_lt s p r) \<and>
   (op_lt s p q \<or> op_eq s p q \<or> op_lt s q p) \<and>
   op_eq_raw s p (get_pointer s q) = op_eq s p q \<and>
   raw_op_eq s (get_pointer s p) q = op_eq s p q \<and>
   op_ne_raw s p (get_pointer s q) = op_ne s p q \<and>
   raw_op_ne s (get_pointer s p) q = op_ne s p q \<and>
   op_eq_unique s p i = (get_pointer s p = uniques s ! i) \<and>
   unique_op_eq s i p = (get_pointer s p = uniques s ! i) \<and>
   op_ne_unique s p i = (get_pointer s p \<noteq> uniques s ! i) \<and>
   unique_op_ne s i p = (get_pointer s p \<noteq> uniques s ! i) \<and>
   op_eq_null s p = (get_pointer s p = 0) \<and> null_op_eq s p = (get_pointer s p = 0) \<and>
   op_ne_null s p = (get_pointer s p \<noteq> 0) \<and> null_op_ne s p = (get_pointer s p \<noteq> 0)"
  by (auto simp add: op_defs compare_def sint_compare_ptr get_pointer_def)

text \<open>Three handles in a row: an empty one and two over resources at addresses 1 and 2.\<close>

theorem compare_orders_addresses_witness:
  "op_lt (run init [Null_handle, Make_owned Plain, Make_owned Virtual_dtor]) None (Some 0) \<and>
   op_lt (run init [Null_handle, Make_owned Plain, Make_owned Virtual_dtor]) (Some 0) (Some 1) \<and>
   op_lt (run init [Null_handle, Make_owned Plain, Make_owned Virtual_dtor]) None (Some 1) \<and>
   sint (compare (run init [Null_handle, Make_owned Plain, Make_owned Virtual_dtor])
     (Some 1) (Some 0)) = 1"
  using compare_orders_addresses
    [of "run init [Null_handle, Make_owned Plain, Make_owned Virtual_dtor]" None "Some 0"
        0 "Some 1" 0]
    compare_orders_addresses
    [of "run init [Null_handle, Make_owned Plain, Make_owned Virtual_dtor]" "Some 1" "Some 0"
        0 "Some 1" 0]
  by (simp add: run_def init_def owned_pointer_null_def make_owned_def ctor_defs member_defs
      op_defs compare_def sint_compare_ptr)

section \<open>The deleter\<close>

lemma count_list_update_other:
  "j < length xs \<Longrightarrow> xs ! j = x \<Longrightarrow> y \<noteq> x \<Longrightarrow>
   count_list (xs[j := y]) x = count_list xs x - 1"
proof (induction xs arbitrary: j)
  case Nil
  then show ?case by simp
next
  case (Cons a xs)
  then show ?case
  proof (cases j)
    case 0
    then show ?thesis using Cons.prems by simp
  next
    case (Suc n)
    have "x \<in> set xs"
      using Cons.prems Suc by (auto intro: nth_mem)
    then have "0 < count_list xs x"
      using count_list_0_iff [of xs x] by auto
    then show ?thesis using Cons Suc by (cases "a = x") auto
  qed
qed

text \<open>Another handle refers to the block of the \<open>j\<close>-th one exactly when the use count of
  the block is more than one.\<close>

lemma last_handle_use_count:
  assumes "j < length (handles s)" and "handles s ! j = Some b"
  shows "(Some b \<in> set ((handles s)[j := None])) = (1 < use_count s (Some b))"
proof -
  have "count_list ((handles s)[j := None]) (Some b) = count_list (handles s) (Some b) - 1"
    using count_list_update_other [OF assms, of None] by simp
  moreover have "(Some b \<in> set ((handles s)[j := None]))
      = (0 < count_list ((handles s)[j := None]) (Some b))"
    using count_list_0_iff [of "(handles s)[j := None]" "Some b"] by auto
  ultimately show ?thesis
    by (auto simp add: use_count_def)
qed

lemma destroy_cases:
  "j < length (handles s) \<and> handles s ! j = Some b \<and> blocks s b = Some cb \<longrightarrow>
     (if Some b \<in> set ((handles s)[j := None])
      then blocks (owned_pointer_destroy s j) = blocks s \<and>
           objects (owned_pointer_destroy s j) = objects s
      else blocks (owned_pointer_destroy s j) b = None \<and>
           (\<forall>b'. b' \<noteq> b \<longrightarrow>
              (blocks (owned_pointer_destroy s j) b' = None) = (blocks s b' = None)) \<and>
           (if cb_acquired cb \<or> cb_ptr cb = 0
            then objects (owned_pointer_destroy s j) = objects s
            else objects (owned_pointer_destroy s j) (cb_ptr cb) = None \<and>
                 (\<forall>a. a \<noteq> cb_ptr cb \<longrightarrow>
                    objects (owned_pointer_destroy s j) a = objects s a)))"
  by (auto simp add: owned_pointer_destroy_def release_def deleter_def
      delete_resource_def delete_event_def member_defs Let_def split: option.splits)

text \<open>
  Claim C9.  A new control block has both flags clear.  When a handle of a block is
  destroyed and the use count of the block is more than one, no block and no resource
  changes.  When it was the last handle, the block is freed and no other block is; the
  resource at its address is destroyed when the acquired flag is clear (and the address is
  not null), and no resource is touched when the flag is set.
\<close>

theorem deleter_frees_unacquired:
  "new_control_block p = \<lparr>cb_ptr = p, cb_acquired = False, cb_deleted = False\<rparr> \<and>
   (j < length (handles s) \<and> handles s ! j = Some b \<and> blocks s b = Some cb \<longrightarrow>
     (if 1 < use_count s (Some b)
      then blocks (owned_pointer_destroy s j) = blocks s \<and>
           objects (owned_pointer_destroy s j) = objects s
      else blocks (owned_pointer_destroy s j) b = None \<and>
           (\<forall>b'. b' \<noteq> b \<longrightarrow>
              (blocks (owned_pointer_destroy s j) b' = None) = (blocks s b' = None)) \<and>
           (if cb_acquired cb \<or> cb_ptr cb = 0
            then objects (owned_pointer_destroy s j) = objects s
            else objects (owned_pointer_destroy s j) (cb_ptr cb) = None \<and>
                 (\<forall>a. a \<noteq> cb_ptr cb \<longrightarrow>
                    objects (owned_pointer_destroy s j) a = objects s a))))"
  using destroy_cases [of j s b cb] last_handle_use_count [of j s b]
  by (simp add: new_control_block_def)

text \<open>The only handle of an unacquired block goes: block and resource are freed.  The
  only handle of an acquired block goes: the block is freed, the resource stays.\<close>

theorem deleter_frees_unacquired_witness:
  "handles (run init [Make_owned Plain]) ! 0 = Some 0 \<and>
   use_count (run init [Make_owned Plain]) (Some 0) = 1 \<and>
   blocks (run init [Make_owned Plain]) 0
     = Some \<lparr>cb_ptr = 1, cb_acquired = False, cb_deleted = False\<rparr> \<and>
   blocks (owned_pointer_destroy (run init [Make_owned Plain]) 0) 0 = None \<and>
   objects (run init [Make_owned Plain]) 1 = Some \<lparr>secret = None\<rparr> \<and>
   objects (owned_pointer_destroy (run init [Make_owned Plain]) 0) 1 = None \<and>
   blocks (owned_pointer_destroy (run init [Make_owned Plain, Acquire 0]) 0) 0 = None \<and>
   objects (owned_pointer_destroy (run init [Make_owned Plain, Acquire 0]) 0) 1
     = Some \<lparr>secret = None\<rparr>"
  using deleter_frees_unacquired [of 0 0 "run init [Make_owned Plain]" 0
          "\<lparr>cb_ptr = 1, cb_acquired = False, cb_deleted = False\<rparr>"]
        deleter_frees_unacquired [of 0 0 "run init [Make_owned Plain, Acquire 0]" 0
          "\<lparr>cb_ptr = 1, cb_acquired = True, cb_deleted = False\<rparr>"]
  by (simp add: run_def init_def make_owned_def ctor_defs acquire_def unique_ptr_def
      owned_pointer_destroy_def release_def deleter_def delete_resource_def member_defs
      use_count_def)


section \<open>What destroying a resource or a block changes\<close>

lemma evolves_refl: "evolves s s"
  by (simp add: evolves_def)

lemma evolves_trans: "evolves s s1 \<Longrightarrow> evolves s1 s2 \<Longrightarrow> evolves s s2"
  unfolding evolves_def by (safe; (simp; fail)?) (metis)+

lemma evolves_delete_event: "evolves s (delete_event s w)"
  by (auto simp add: evolves_def delete_event_def member_defs split: option.splits if_splits)

lemma evolves_delete_resource: "evolves s (delete_resource s p)"
proof -
  have "evolves s (s1\<lparr>objects := (objects s1)(p := None)\<rparr>)" if "evolves s s1" for s1
    using that by (auto simp add: evolves_def split: if_splits)
  then show ?thesis
    by (auto simp add: delete_resource_def Let_def evolves_refl evolves_delete_event
        split: option.splits)
qed

lemma evolves_deleter: "evolves s (deleter s b)"
proof -
  have "evolves s (s\<lparr>blocks := (blocks s)(b := None)\<rparr>)"
    by (auto simp add: evolves_def split: if_splits)
  then show ?thesis
    by (auto simp add: deleter_def Let_def evolves_refl split: option.splits
        intro: evolves_trans [OF _ evolves_delete_resource])
qed

lemma evolves_release: "evolves s (release s h)"
  by (simp add: release_def evolves_refl evolves_deleter split: option.splits)

lemma evolves_fresh: "evolves s s' \<Longrightarrow> fresh s \<Longrightarrow> fresh s'"
  unfolding evolves_def fresh_def
  by (metis not_Some_eq)

lemma evolves_bounded: "evolves s s' \<Longrightarrow> bounded s \<Longrightarrow> bounded s'"
  unfolding evolves_def bounded_def
  by metis

lemma evolves_beacon: "evolves s s' \<Longrightarrow> beacon_inv s a \<Longrightarrow> beacon_inv s' a"
  unfolding evolves_def beacon_inv_def
  by metis

text \<open>A block that \<open>delete_event\<close> or \<open>delete_resource\<close> meets stays; \<open>release\<close> frees
  a block only when no handle of the program refers to it.\<close>

lemma blocks_delete_event_None [simp]:
  "blocks (delete_event s w) b = None \<longleftrightarrow> blocks s b = None"
  by (auto simp add: delete_event_def member_defs split: option.splits)

lemma blocks_delete_resource_None [simp]:
  "blocks (delete_resource s p) b = None \<longleftrightarrow> blocks s b = None"
  by (simp add: delete_resource_def Let_def split: option.splits)

lemma blocks_release_None:
  "blocks (release s h) b = None \<Longrightarrow> blocks s b = None \<or> Some b \<notin> set (handles s)"
  by (auto simp add: release_def deleter_def Let_def split: option.splits if_splits)

section \<open>Every program keeps the store well-formed\<close>

lemma wf_init: "wf init"
  by (simp add: wf_def fresh_def bounded_def handles_live_def init_def)

lemma release_wf: "wf s \<Longrightarrow> wf (release s h)"
proof -
  assume w: "wf s"
  have "handles_live (release s h)"
    using w blocks_release_None [of s h] evolves_release [of s h]
    unfolding wf_def handles_live_def evolves_def by metis
  then show ?thesis
    using w evolves_release [of s h]
    unfolding wf_def by (blast intro: evolves_fresh evolves_bounded)
qed

lemma delete_resource_wf: "wf s \<Longrightarrow> wf (delete_resource s p)"
proof -
  assume w: "wf s"
  have "handles (delete_resource s p) = handles s"
    using evolves_delete_resource [of s p] by (simp add: evolves_def)
  then have "handles_live (delete_resource s p)"
    using w unfolding wf_def handles_live_def by simp
  then show ?thesis
    using w evolves_delete_resource [of s p]
    unfolding wf_def by (blast intro: evolves_fresh evolves_bounded)
qed

lemma blocks_set_acquired_None [simp]:
  "blocks (set_acquired s h v) b = None \<longleftrightarrow> blocks s b = None"
  by (auto simp add: set_acquired_def split: option.splits)

lemma set_acquired_frame [simp]:
  "handles (set_acquired s h v) = handles s"
  "uniques (set_acquired s h v) = uniques s"
  "objects (set_acquired s h v) = objects s"
  "next_block (set_acquired s h v) = next_block s"
  "next_addr (set_acquired s h v) = next_addr s"
  by (simp_all add: set_acquired_def split: option.splits)

lemma set_acquired_wf: "wf s \<Longrightarrow> wf (set_acquired s h v)"
  unfolding wf_def fresh_def bounded_def handles_live_def
  by (auto simp add: set_acquired_def split: option.splits if_splits)

lemma append_handle_wf:
  "wf s \<Longrightarrow> (\<forall>b. h = Some b \<longrightarrow> blocks s b \<noteq> None) \<Longrightarrow> wf (s\<lparr>handles := handles s @ [h]\<rparr>)"
  unfolding wf_def fresh_def bounded_def handles_live_def
  by auto

lemma handles_update_wf:
  "wf s \<Longrightarrow> set hs \<subseteq> insert None (set (handles s)) \<Longrightarrow> wf (s\<lparr>handles := hs\<rparr>)"
  unfolding wf_def fresh_def bounded_def handles_live_def
  by auto

lemma uniques_update_wf:
  "wf s \<Longrightarrow> \<forall>a \<in> set us. a \<le> next_addr s \<Longrightarrow> wf (s\<lparr>uniques := us\<rparr>)"
  unfolding wf_def fresh_def bounded_def handles_live_def
  by auto

lemma wf_uniques_le: "wf s \<Longrightarrow> i < length (uniques s) \<Longrightarrow> uniques s ! i \<le> next_addr s"
  by (simp add: wf_def bounded_def)

lemma wf_uniques_all: "wf s \<Longrightarrow> \<forall>a \<in> set (uniques s). a \<le> next_addr s"
  by (simp add: wf_def bounded_def)

lemma wf_get_pointer_le: "wf s \<Longrightarrow> get_pointer s h \<le> next_addr s"
  by (auto simp add: wf_def bounded_def get_pointer_def split: option.splits)

lemma wf_block_ptr: "wf s \<Longrightarrow> blocks s b = Some cb \<Longrightarrow> cb_ptr cb \<noteq> Suc (next_addr s)"
  by (fastforce simp add: wf_def bounded_def)

lemma new_object_wf:
  assumes "wf s"
  shows "wf (s\<lparr>objects := (objects s)(Suc (next_addr s) \<mapsto> r),
                next_addr := Suc (next_addr s)\<rparr>)"
  using assms unfolding wf_def fresh_def bounded_def handles_live_def
  by (auto simp add: le_Suc_eq)

text \<open>The private constructor, by whether the resource resolves to a live block.\<close>

lemma gsp_snd_Some:
  "snd (get_secret_when_possible s k p) = Some b \<longleftrightarrow>
     is_polymorphic k \<and> p \<noteq> 0 \<and> blocks s b \<noteq> None \<and>
     (\<exists>r. objects s p = Some r \<and> secret r = Some (Some b))"
  by (auto simp add: get_secret_when_possible_def lock_def split: option.splits)

lemma ctor_attach:
  "snd (get_secret_when_possible s k p) = Some b \<Longrightarrow>
   owned_pointer_private s k p acq = (set_acquired s (Some b) acq, Some b)"
  by (cases "get_secret_when_possible s k p") (simp add: owned_pointer_private_def)

lemma resource_update: "(r::resource)\<lparr>secret := x\<rparr> = \<lparr>secret = x\<rparr>"
  by (cases r) simp

lemma ctor_fresh:
  "snd (get_secret_when_possible s k p) = None \<Longrightarrow>
   owned_pointer_private s k p acq =
     (s\<lparr>blocks := (blocks s)(next_block s \<mapsto>
           \<lparr>cb_ptr = p, cb_acquired = acq, cb_deleted = False\<rparr>),
        next_block := Suc (next_block s),
        objects := (if is_polymorphic k \<and> p \<noteq> 0 \<and> has_beacon s p
                    then (objects s)(p \<mapsto> \<lparr>secret = Some (Some (next_block s))\<rparr>)
                    else objects s)\<rparr>,
      Some (next_block s))"
  by (cases "get_secret_when_possible s k p")
     (auto simp add: owned_pointer_private_def get_secret_when_possible_def
        set_shared_secret_when_possible_def new_control_block_def set_acquired_def
        has_beacon_def Let_def resource_update split: option.splits if_splits)

lemma ctor_wf:
  assumes "wf s" and "p \<le> next_addr s" and "owned_pointer_private s k p acq = (s', h)"
  shows "wf (s'\<lparr>handles := handles s' @ [h]\<rparr>)"
proof (cases "snd (get_secret_when_possible s k p)")
  case (Some b)
  then have "s' = set_acquired s (Some b) acq" "h = Some b"
    using ctor_attach [OF Some, of acq] assms(3) by simp_all
  moreover have "blocks s b \<noteq> None"
    using Some by (simp add: gsp_snd_Some)
  ultimately show ?thesis
    using append_handle_wf [OF set_acquired_wf [OF assms(1), of "Some b" acq], of "Some b"]
    by simp
next
  case None
  have eq: "s' = s\<lparr>blocks := (blocks s)(next_block s \<mapsto>
           \<lparr>cb_ptr = p, cb_acquired = acq, cb_deleted = False\<rparr>),
        next_block := Suc (next_block s),
        objects := (if is_polymorphic k \<and> p \<noteq> 0 \<and> has_beacon s p
                    then (objects s)(p \<mapsto> \<lparr>secret = Some (Some (next_block s))\<rparr>)
                    else objects s)\<rparr>" "h = Some (next_block s)"
    using ctor_fresh [OF None, of acq] assms(3) by simp_all
  have f: "fresh s" and bd: "bounded s" and hl: "handles_live s"
    using assms(1) by (simp_all add: wf_def)
  have "fresh (s'\<lparr>handles := handles s' @ [h]\<rparr>)"
    using f unfolding eq fresh_def by (auto simp add: has_beacon_def split: option.splits)
  moreover have "bounded (s'\<lparr>handles := handles s' @ [h]\<rparr>)"
    using bd assms(2) unfolding eq bounded_def by auto
  moreover have "handles_live (s'\<lparr>handles := handles s' @ [h]\<rparr>)"
    using hl unfolding eq handles_live_def by auto
  ultimately show ?thesis by (simp add: wf_def)
qed

lemma make_owned_wf: "wf s \<Longrightarrow> wf (make_owned s k)"
proof -
  assume i: "wf s"
  define s0 where "s0 = s\<lparr>objects := (objects s)(Suc (next_addr s) \<mapsto>
      \<lparr>secret = (if has_virtual_destructor k then Some None else None)\<rparr>),
      next_addr := Suc (next_addr s)\<rparr>"
  have i0: "wf s0" unfolding s0_def using new_object_wf [OF i] by simp
  obtain s1 h where c: "owned_pointer_private s0 k (Suc (next_addr s)) False = (s1, h)"
    by (cases "owned_pointer_private s0 k (Suc (next_addr s)) False")
  have "wf (s1\<lparr>handles := handles s1 @ [h]\<rparr>)"
    using ctor_wf [OF i0 _ c] by (simp add: s0_def)
  then show ?thesis
    using c by (simp add: make_owned_def Let_def s0_def)
qed

lemma from_unique_wf:
  assumes "wf s" and "i < length (uniques s)"
  shows "wf (owned_pointer_from_unique s k i)"
proof -
  define s0 where "s0 = s\<lparr>uniques := (uniques s)[i := 0]\<rparr>"
  have "\<forall>a \<in> set ((uniques s)[i := 0]). a \<le> next_addr s"
    using wf_uniques_all [OF assms(1)] set_update_subset_insert [of "uniques s" i 0]
    by auto
  then have i0: "wf s0" unfolding s0_def using uniques_update_wf [OF assms(1)] by simp
  have le: "uniques s ! i \<le> next_addr s0"
    using wf_uniques_le [OF assms(1,2)] by (simp add: s0_def)
  obtain s1 h where c: "owned_pointer_private s0 k (uniques s ! i) False = (s1, h)"
    by (cases "owned_pointer_private s0 k (uniques s ! i) False")
  have "wf (s1\<lparr>handles := handles s1 @ [h]\<rparr>)"
    using ctor_wf [OF i0 le c] .
  then show ?thesis
    using c by (simp add: owned_pointer_from_unique_def Let_def s0_def)
qed

lemma from_link_wf:
  assumes "wf s" and "i < length (uniques s)"
  shows "wf (owned_pointer_from_link s k (link s i))"
proof -
  obtain s1 h where c: "owned_pointer_private s k (uniques s ! i) True = (s1, h)"
    by (cases "owned_pointer_private s k (uniques s ! i) True")
  have "wf (s1\<lparr>handles := handles s1 @ [h]\<rparr>)"
    using ctor_wf [OF assms(1) wf_uniques_le [OF assms(1,2)] c] .
  then show ?thesis
    using c by (simp add: owned_pointer_from_link_def link_def)
qed

lemma acquire_wf: "wf s \<Longrightarrow> wf (snd (acquire s j))"
proof -
  assume i: "wf s"
  have "wf (set_acquired s h True
      \<lparr>uniques := uniques (set_acquired s h True) @ [get_pointer s h]\<rparr>)" for h
    using uniques_update_wf [OF set_acquired_wf [OF i, of h True],
        of "uniques s @ [get_pointer s h]"]
      wf_uniques_all [OF i] wf_get_pointer_le [OF i, of h]
    by (auto simp add: set_acquired_def split: option.splits)
  moreover have "wf (s\<lparr>uniques := uniques s @ [0]\<rparr>)"
    using uniques_update_wf [OF i, of "uniques s @ [0]"] wf_uniques_all [OF i] by auto
  ultimately show ?thesis
    using i by (simp add: acquire_def unique_ptr_def)
qed

lemma step_wf: "wf s \<Longrightarrow> wf (step s x)"
proof (cases x)
  case Null_handle
  assume "wf s" then show ?thesis
    using append_handle_wf [of s None] Null_handle by (simp add: owned_pointer_null_def)
next
  case Null_unique
  assume i: "wf s" then show ?thesis
    using uniques_update_wf [OF i, of "uniques s @ [0]"] wf_uniques_all [OF i] Null_unique
    by (auto simp add: unique_ptr_null_def)
next
  case New_unique
  assume i: "wf s"
  have "wf (s\<lparr>objects := (objects s)(Suc (next_addr s) \<mapsto> \<lparr>secret = None\<rparr>),
                    next_addr := Suc (next_addr s)\<rparr>)" (is "wf ?s0")
    using new_object_wf [OF i] by simp
  then have "wf (?s0\<lparr>uniques := uniques s @ [Suc (next_addr s)]\<rparr>)"
    using uniques_update_wf [of ?s0 "uniques s @ [Suc (next_addr s)]"] wf_uniques_all [OF i]
    by (auto simp add: le_Suc_eq)
  then show ?thesis
    using New_unique by (simp add: unique_ptr_new_def Let_def)
next
  case (Make_owned k)
  assume "wf s" then show ?thesis using Make_owned by (simp add: make_owned_wf)
next
  case (From_unique k i)
  assume "wf s" then show ?thesis
    using From_unique from_unique_wf [of s i k] by simp
next
  case (From_link k i)
  assume "wf s" then show ?thesis
    using From_link from_link_wf [of s i k] by simp
next
  case (Copy j)
  assume i: "wf s"
  have "j < length (handles s) \<Longrightarrow> \<forall>b. handles s ! j = Some b \<longrightarrow> blocks s b \<noteq> None"
    using i by (auto simp add: wf_def handles_live_def dest: nth_mem)
  then show ?thesis
    using Copy i append_handle_wf [OF i, of "handles s ! j"]
    by (simp add: owned_pointer_copy_def)
next
  case (Assign j k)
  assume i: "wf s"
  have "wf (s\<lparr>handles := (handles s)[j := handles s ! k]\<rparr>)" if "k < length (handles s)"
    using handles_update_wf [OF i, of "(handles s)[j := handles s ! k]"]
      set_update_subset_insert [of "handles s" j "handles s ! k"] that
    by (auto dest: nth_mem)
  then show ?thesis
    using Assign i by (simp add: operator_assign_def Let_def release_wf)
next
  case (Acquire j)
  assume "wf s" then show ?thesis using Acquire by (simp add: acquire_wf)
next
  case (Get j)
  assume "wf s" then show ?thesis using Get by simp
next
  case (Destroy j)
  assume i: "wf s"
  have "wf (s\<lparr>handles := (handles s)[j := None]\<rparr>)"
    using handles_update_wf [OF i, of "(handles s)[j := None]"]
      set_update_subset_insert [of "handles s" j None]
    by auto
  then show ?thesis
    using Destroy i by (simp add: owned_pointer_destroy_def Let_def release_wf)
next
  case (Destroy_unique j)
  assume i: "wf s"
  have "wf (s\<lparr>uniques := (uniques s)[j := 0]\<rparr>)"
    using uniques_update_wf [OF i, of "(uniques s)[j := 0]"] wf_uniques_all [OF i]
      set_update_subset_insert [of "uniques s" j 0]
    by auto
  then show ?thesis
    using Destroy_unique i by (simp add: unique_ptr_destroy_def Let_def delete_resource_wf)
qed

lemma run_wf: "wf s \<Longrightarrow> wf (run s xs)"
  by (induction xs arbitrary: s) (simp_all add: run_def step_wf)

lemma run_append: "run s (xs @ ys) = run (run s xs) ys"
  by (simp add: run_def)

lemma run_Cons: "run s (x # xs) = run (step s x) xs"
  by (simp add: run_def)

section \<open>A program typed for a resource keeps one block over it\<close>

lemma beacon_inv_handles [simp]: "beacon_inv (s\<lparr>handles := hs\<rparr>) a = beacon_inv s a"
  by (simp add: beacon_inv_def)

lemma beacon_inv_uniques [simp]: "beacon_inv (s\<lparr>uniques := us\<rparr>) a = beacon_inv s a"
  by (simp add: beacon_inv_def)

lemma beacon_inv_init: "beacon_inv init a"
  by (simp add: beacon_inv_def init_def)

lemma set_acquired_beacon: "beacon_inv s a \<Longrightarrow> beacon_inv (set_acquired s h v) a"
  unfolding beacon_inv_def
  by (auto simp add: set_acquired_def split: option.splits if_splits)

lemma release_beacon: "beacon_inv s a \<Longrightarrow> beacon_inv (release s h) a"
  using evolves_release [of s h] by (blast intro: evolves_beacon)

lemma delete_resource_beacon: "beacon_inv s a \<Longrightarrow> beacon_inv (delete_resource s p) a"
  using evolves_delete_resource [of s p] by (blast intro: evolves_beacon)

lemma new_object_beacon:
  assumes "wf s" and "beacon_inv s a"
  shows "beacon_inv (s\<lparr>objects := (objects s)(Suc (next_addr s) \<mapsto> r),
                        next_addr := Suc (next_addr s)\<rparr>) a"
  using assms(2) wf_block_ptr [OF assms(1)] unfolding beacon_inv_def
  by (auto split: if_splits)

lemma ctor_beacon:
  assumes "wf s" and "beacon_inv s a" and "p = a \<longrightarrow> has_beacon s p \<longrightarrow> is_polymorphic k"
    and "owned_pointer_private s k p acq = (s', h)"
  shows "beacon_inv s' a"
proof (cases "snd (get_secret_when_possible s k p)")
  case (Some b)
  then have "s' = set_acquired s (Some b) acq"
    using ctor_attach [OF Some, of acq] assms(4) by simp
  then show ?thesis
    using assms(2) by (simp add: set_acquired_beacon)
next
  case None
  have nolock: "\<not> (is_polymorphic k \<and> p \<noteq> 0 \<and> blocks s b \<noteq> None \<and>
     (\<exists>r. objects s p = Some r \<and> secret r = Some (Some b)))" for b
    using None gsp_snd_Some [of s k p b] by simp
  have eq: "s' = s\<lparr>blocks := (blocks s)(next_block s \<mapsto>
           \<lparr>cb_ptr = p, cb_acquired = acq, cb_deleted = False\<rparr>),
        next_block := Suc (next_block s),
        objects := (if is_polymorphic k \<and> p \<noteq> 0 \<and> has_beacon s p
                    then (objects s)(p \<mapsto> \<lparr>secret = Some (Some (next_block s))\<rparr>)
                    else objects s)\<rparr>"
    using ctor_fresh [OF None, of acq] assms(4) by simp
  have f: "fresh s" using assms(1) by (simp add: wf_def)
  note bi = assms(2)
  show ?thesis
    unfolding beacon_inv_def
  proof (intro allI impI)
    fix r w b cb
    assume o: "objects s' a = Some r" and sr: "secret r = Some w"
      and bl: "blocks s' b = Some cb" and pt: "cb_ptr cb = a"
    show "w = Some b"
    proof (cases "b = next_block s")
      case True
      then have ap: "a = p" using bl pt by (auto simp add: eq)
      have "has_beacon s p"
        using o sr ap by (auto simp add: eq has_beacon_def split: if_splits)
      moreover have "p \<noteq> 0"
        using o ap f by (cases "p = 0") (auto simp add: eq fresh_def split: if_splits)
      ultimately show ?thesis
        using o sr ap True assms(3) by (auto simp add: eq split: if_splits)
    next
      case False
      then have bl0: "blocks s b = Some cb" using bl by (simp add: eq)
      show ?thesis
      proof (cases "a = p \<and> is_polymorphic k \<and> p \<noteq> 0 \<and> has_beacon s p")
        case True
        then obtain r0 w0 where r0: "objects s p = Some r0" "secret r0 = Some w0"
          by (auto simp add: has_beacon_def split: option.splits)
        then have "w0 = Some b" using bi bl0 pt True unfolding beacon_inv_def by blast
        then show ?thesis
          using nolock [of b] True bl0 r0 by simp
      next
        case False
        then have "objects s a = Some r"
          using o by (auto simp add: eq split: if_splits)
        then show ?thesis
          using bi bl0 pt sr unfolding beacon_inv_def by blast
      qed
    qed
  qed
qed

lemma make_owned_beacon: "wf s \<Longrightarrow> beacon_inv s a \<Longrightarrow> beacon_inv (make_owned s k) a"
proof -
  assume i: "wf s" and bi: "beacon_inv s a"
  define s0 where "s0 = s\<lparr>objects := (objects s)(Suc (next_addr s) \<mapsto>
      \<lparr>secret = (if has_virtual_destructor k then Some None else None)\<rparr>),
      next_addr := Suc (next_addr s)\<rparr>"
  have i0: "wf s0" unfolding s0_def using new_object_wf [OF i] by simp
  have b0: "beacon_inv s0 a" unfolding s0_def using new_object_beacon [OF i bi] by simp
  have b: "Suc (next_addr s) = a \<longrightarrow> has_beacon s0 (Suc (next_addr s)) \<longrightarrow> is_polymorphic k"
    by (cases k) (simp_all add: s0_def has_beacon_def)
  obtain s1 h where c: "owned_pointer_private s0 k (Suc (next_addr s)) False = (s1, h)"
    by (cases "owned_pointer_private s0 k (Suc (next_addr s)) False")
  have "beacon_inv s1 a"
    using ctor_beacon [OF i0 b0 b c] .
  then show ?thesis
    using c by (simp add: make_owned_def Let_def s0_def)
qed

lemma from_unique_beacon:
  assumes "wf s" and "beacon_inv s a" and "i < length (uniques s)"
    and "typed s a (From_unique k i)"
  shows "beacon_inv (owned_pointer_from_unique s k i) a"
proof -
  define s0 where "s0 = s\<lparr>uniques := (uniques s)[i := 0]\<rparr>"
  have "\<forall>a \<in> set ((uniques s)[i := 0]). a \<le> next_addr s"
    using wf_uniques_all [OF assms(1)] set_update_subset_insert [of "uniques s" i 0]
    by auto
  then have i0: "wf s0" unfolding s0_def using uniques_update_wf [OF assms(1)] by simp
  have b0: "beacon_inv s0 a" using assms(2) by (simp add: s0_def)
  have b: "uniques s ! i = a \<longrightarrow> has_beacon s0 (uniques s ! i) \<longrightarrow> is_polymorphic k"
    using assms(3,4) by (auto simp add: s0_def has_beacon_def)
  obtain s1 h where c: "owned_pointer_private s0 k (uniques s ! i) False = (s1, h)"
    by (cases "owned_pointer_private s0 k (uniques s ! i) False")
  have "beacon_inv s1 a"
    using ctor_beacon [OF i0 b0 b c] .
  then show ?thesis
    using c by (simp add: owned_pointer_from_unique_def Let_def s0_def)
qed

lemma from_link_beacon:
  assumes "wf s" and "beacon_inv s a" and "i < length (uniques s)"
    and "typed s a (From_link k i)"
  shows "beacon_inv (owned_pointer_from_link s k (link s i)) a"
proof -
  have b: "uniques s ! i = a \<longrightarrow> has_beacon s (uniques s ! i) \<longrightarrow> is_polymorphic k"
    using assms(3,4) by auto
  obtain s1 h where c: "owned_pointer_private s k (uniques s ! i) True = (s1, h)"
    by (cases "owned_pointer_private s k (uniques s ! i) True")
  have "beacon_inv s1 a"
    using ctor_beacon [OF assms(1,2) b c] .
  then show ?thesis
    using c by (simp add: owned_pointer_from_link_def link_def)
qed

lemma step_beacon: "wf s \<Longrightarrow> beacon_inv s a \<Longrightarrow> typed s a x \<Longrightarrow> beacon_inv (step s x) a"
proof (cases x)
  case Null_handle
  assume "beacon_inv s a" then show ?thesis
    using Null_handle by (simp add: owned_pointer_null_def)
next
  case Null_unique
  assume "beacon_inv s a" then show ?thesis
    using Null_unique by (simp add: unique_ptr_null_def)
next
  case New_unique
  assume "wf s" "beacon_inv s a" then show ?thesis
    using New_unique new_object_beacon [of s a "\<lparr>secret = None\<rparr>"]
    by (simp add: unique_ptr_new_def Let_def)
next
  case (Make_owned k)
  assume "wf s" "beacon_inv s a" then show ?thesis
    using Make_owned by (simp add: make_owned_beacon)
next
  case (From_unique k i)
  assume "wf s" "beacon_inv s a" "typed s a x" then show ?thesis
    using From_unique from_unique_beacon [of s a i k] by simp
next
  case (From_link k i)
  assume "wf s" "beacon_inv s a" "typed s a x" then show ?thesis
    using From_link from_link_beacon [of s a i k] by simp
next
  case (Copy j)
  assume "beacon_inv s a" then show ?thesis
    using Copy by (simp add: owned_pointer_copy_def)
next
  case (Assign j k)
  assume "beacon_inv s a" then show ?thesis
    using Assign by (simp add: operator_assign_def Let_def release_beacon)
next
  case (Acquire j)
  assume "beacon_inv s a" then show ?thesis
    using Acquire by (simp add: acquire_def unique_ptr_def set_acquired_beacon)
next
  case (Get j)
  assume "beacon_inv s a" then show ?thesis using Get by simp
next
  case (Destroy j)
  assume "beacon_inv s a" then show ?thesis
    using Destroy by (simp add: owned_pointer_destroy_def Let_def release_beacon)
next
  case (Destroy_unique j)
  assume "beacon_inv s a" then show ?thesis
    using Destroy_unique by (simp add: unique_ptr_destroy_def Let_def delete_resource_beacon)
qed

lemma run_beacon: "wf s \<Longrightarrow> beacon_inv s a \<Longrightarrow> typed_run s a xs \<Longrightarrow> beacon_inv (run s xs) a"
  by (induction xs arbitrary: s) (simp_all add: run_def step_wf step_beacon)

section \<open>How the flags of a block change\<close>

lemma gsp_uniques [simp]:
  "get_secret_when_possible (s\<lparr>uniques := us\<rparr>) k p = get_secret_when_possible s k p"
  by (simp add: get_secret_when_possible_def lock_def split: option.splits)

lemma evolves_blocks:
  "evolves s s' \<Longrightarrow> blocks s' b = Some cb' \<Longrightarrow>
   \<exists>cb. blocks s b = Some cb \<and> cb_ptr cb' = cb_ptr cb \<and>
        cb_acquired cb' = cb_acquired cb \<and> (cb_deleted cb \<longrightarrow> cb_deleted cb')"
  by (simp add: evolves_def)

lemma evolves_next_block: "evolves s s' \<Longrightarrow> next_block s' = next_block s"
  by (simp add: evolves_def)

lemma set_acquired_blocks:
  "blocks (set_acquired s h v) b = Some cb' \<Longrightarrow>
   \<exists>cb. blocks s b = Some cb \<and> cb_ptr cb' = cb_ptr cb \<and> cb_deleted cb' = cb_deleted cb \<and>
        (cb_acquired cb' = cb_acquired cb \<or> (h = Some b \<and> cb_acquired cb' = v))"
  by (auto simp add: set_acquired_def split: option.splits if_splits)

lemma ctor_blocks:
  assumes "owned_pointer_private s k p acq = (s', h)" and "blocks s' b = Some cb'"
  shows "(b = next_block s \<and> next_block s' = Suc b) \<or>
         (\<exists>cb. blocks s b = Some cb \<and> cb_ptr cb' = cb_ptr cb \<and>
               cb_deleted cb' = cb_deleted cb \<and>
               (cb_acquired cb' = cb_acquired cb \<or>
                (snd (get_secret_when_possible s k p) = Some b \<and> cb_acquired cb' = acq)))"
proof (cases "snd (get_secret_when_possible s k p)")
  case (Some b0)
  then have "s' = set_acquired s (Some b0) acq"
    using ctor_attach [OF Some, of acq] assms(1) by simp
  then show ?thesis
    using set_acquired_blocks [of s "Some b0" acq b cb'] assms(2) Some by auto
next
  case None
  show ?thesis
    using ctor_fresh [OF None, of acq] assms by (auto split: if_splits)
qed

lemma ctor_next_block:
  "owned_pointer_private s k p acq = (s', h) \<Longrightarrow> next_block s \<le> next_block s'"
  by (cases "snd (get_secret_when_possible s k p)")
     (auto simp add: ctor_attach ctor_fresh)

text \<open>One statement: a block of the new state is the one just allocated, or it was there
  before with the same address; its deleted flag was not cleared, and its acquired flag
  was not cleared unless the statement rewraps this block.\<close>

lemma step_blocks:
  assumes "blocks (step s x) b = Some cb'"
  shows "(b = next_block s \<and> next_block (step s x) = Suc b) \<or>
         (\<exists>cb. blocks s b = Some cb \<and> cb_ptr cb' = cb_ptr cb \<and>
               (cb_deleted cb \<longrightarrow> cb_deleted cb') \<and>
               (\<not> rewraps s b x \<longrightarrow> cb_acquired cb \<longrightarrow> cb_acquired cb'))"
proof (cases x)
  case Null_handle
  then show ?thesis using assms by (simp add: owned_pointer_null_def)
next
  case Null_unique
  then show ?thesis using assms by (simp add: unique_ptr_null_def)
next
  case New_unique
  then show ?thesis using assms by (simp add: unique_ptr_new_def Let_def)
next
  case (Make_owned k)
  define s0 where "s0 = s\<lparr>objects := (objects s)(Suc (next_addr s) \<mapsto>
      \<lparr>secret = (if has_virtual_destructor k then Some None else None)\<rparr>),
      next_addr := Suc (next_addr s)\<rparr>"
  obtain s1 h where c: "owned_pointer_private s0 k (Suc (next_addr s)) False = (s1, h)"
    by (cases "owned_pointer_private s0 k (Suc (next_addr s)) False")
  have st: "make_owned s k = s1\<lparr>handles := handles s1 @ [h]\<rparr>"
    using c by (simp add: make_owned_def Let_def s0_def)
  have "snd (get_secret_when_possible s0 k (Suc (next_addr s))) \<noteq> Some b"
    by (simp add: gsp_snd_Some s0_def)
  then show ?thesis
    using ctor_blocks [OF c, of b cb'] assms Make_owned by (auto simp add: st s0_def)
next
  case (From_unique k i)
  show ?thesis
  proof (cases "i < length (uniques s)")
    case True
    define s0 where "s0 = s\<lparr>uniques := (uniques s)[i := 0]\<rparr>"
    obtain s1 h where c: "owned_pointer_private s0 k (uniques s ! i) False = (s1, h)"
      by (cases "owned_pointer_private s0 k (uniques s ! i) False")
    have st: "owned_pointer_from_unique s k i = s1\<lparr>handles := handles s1 @ [h]\<rparr>"
      using c by (simp add: owned_pointer_from_unique_def Let_def s0_def)
    show ?thesis
      using ctor_blocks [OF c, of b cb'] assms From_unique True
      by (auto simp add: st s0_def)
  next
    case False
    then show ?thesis using assms From_unique by simp
  qed
next
  case (From_link k i)
  show ?thesis
  proof (cases "i < length (uniques s)")
    case True
    obtain s1 h where c: "owned_pointer_private s k (uniques s ! i) True = (s1, h)"
      by (cases "owned_pointer_private s k (uniques s ! i) True")
    have st: "owned_pointer_from_link s k (link s i) = s1\<lparr>handles := handles s1 @ [h]\<rparr>"
      using c by (simp add: owned_pointer_from_link_def link_def)
    show ?thesis
      using ctor_blocks [OF c, of b cb'] assms From_link True
      by (auto simp add: st)
  next
    case False
    then show ?thesis using assms From_link by simp
  qed
next
  case (Copy j)
  then show ?thesis using assms by (simp add: owned_pointer_copy_def split: if_splits)
next
  case (Assign j k)
  show ?thesis
    using assms Assign
      evolves_blocks [OF evolves_release,
        of "s\<lparr>handles := (handles s)[j := handles s ! k]\<rparr>" "handles s ! j" b cb']
    by (auto simp add: operator_assign_def Let_def split: if_splits)
next
  case (Acquire j)
  show ?thesis
    using assms Acquire set_acquired_blocks [of s "handles s ! j" True b cb']
    by (auto simp add: acquire_def unique_ptr_def split: if_splits)
next
  case (Get j)
  then show ?thesis using assms by simp
next
  case (Destroy j)
  show ?thesis
    using assms Destroy
      evolves_blocks [OF evolves_release,
        of "s\<lparr>handles := (handles s)[j := None]\<rparr>" "handles s ! j" b cb']
    by (auto simp add: owned_pointer_destroy_def Let_def split: if_splits)
next
  case (Destroy_unique i)
  show ?thesis
    using assms Destroy_unique
      evolves_blocks [OF evolves_delete_resource,
        of "s\<lparr>uniques := (uniques s)[i := 0]\<rparr>" "uniques s ! i" b cb']
    by (auto simp add: unique_ptr_destroy_def Let_def split: if_splits)
qed

lemma step_next_block: "next_block s \<le> next_block (step s x)"
proof (cases x)
  case (Make_owned k)
  define s0 where "s0 = s\<lparr>objects := (objects s)(Suc (next_addr s) \<mapsto>
      \<lparr>secret = (if has_virtual_destructor k then Some None else None)\<rparr>),
      next_addr := Suc (next_addr s)\<rparr>"
  obtain s1 h where c: "owned_pointer_private s0 k (Suc (next_addr s)) False = (s1, h)"
    by (cases "owned_pointer_private s0 k (Suc (next_addr s)) False")
  have st: "make_owned s k = s1\<lparr>handles := handles s1 @ [h]\<rparr>"
    using c by (simp add: make_owned_def Let_def s0_def)
  show ?thesis
    using ctor_next_block [OF c] Make_owned by (simp add: st s0_def)
next
  case (From_unique k i)
  define s0 where "s0 = s\<lparr>uniques := (uniques s)[i := 0]\<rparr>"
  obtain s1 h where c: "owned_pointer_private s0 k (uniques s ! i) False = (s1, h)"
    by (cases "owned_pointer_private s0 k (uniques s ! i) False")
  have st: "owned_pointer_from_unique s k i = s1\<lparr>handles := handles s1 @ [h]\<rparr>"
    using c by (simp add: owned_pointer_from_unique_def Let_def s0_def)
  show ?thesis
    using ctor_next_block [OF c] From_unique by (simp add: st s0_def)
next
  case (From_link k i)
  obtain s1 h where c: "owned_pointer_private s k (uniques s ! i) True = (s1, h)"
    by (cases "owned_pointer_private s k (uniques s ! i) True")
  have st: "owned_pointer_from_link s k (link s i) = s1\<lparr>handles := handles s1 @ [h]\<rparr>"
    using c by (simp add: owned_pointer_from_link_def link_def)
  show ?thesis
    using ctor_next_block [OF c] From_link by (simp add: st)
next
  case (Assign j k)
  show ?thesis
    using Assign evolves_next_block [OF evolves_release,
        of "s\<lparr>handles := (handles s)[j := handles s ! k]\<rparr>" "handles s ! j"]
    by (simp add: operator_assign_def Let_def)
next
  case (Destroy j)
  show ?thesis
    using Destroy evolves_next_block [OF evolves_release,
        of "s\<lparr>handles := (handles s)[j := None]\<rparr>" "handles s ! j"]
    by (simp add: owned_pointer_destroy_def Let_def)
next
  case (Destroy_unique i)
  show ?thesis
    using Destroy_unique evolves_next_block [OF evolves_delete_resource,
        of "s\<lparr>uniques := (uniques s)[i := 0]\<rparr>" "uniques s ! i"]
    by (simp add: unique_ptr_destroy_def Let_def)
qed (simp_all add: owned_pointer_null_def unique_ptr_null_def unique_ptr_new_def Let_def
      owned_pointer_copy_def acquire_def unique_ptr_def)

lemma run_dead:
  "wf s \<Longrightarrow> b < next_block s \<Longrightarrow> blocks s b = None \<Longrightarrow> blocks (run s xs) b = None"
proof (induction xs arbitrary: s)
  case Nil
  then show ?case by (simp add: run_def)
next
  case (Cons x xs)
  have "blocks (step s x) b = None"
    using step_blocks [of s x b] Cons.prems(2,3) by (cases "blocks (step s x) b") auto
  moreover have "b < next_block (step s x)"
    using step_next_block [of s x] Cons.prems(2) by simp
  ultimately show ?case
    using Cons.IH [OF step_wf [OF Cons.prems(1)]] by (simp add: run_Cons)
qed

lemma run_blocks:
  "wf s \<Longrightarrow> blocks s b = Some cb \<Longrightarrow> blocks (run s xs) b = Some cb' \<Longrightarrow>
   cb_ptr cb' = cb_ptr cb \<and> (cb_deleted cb \<longrightarrow> cb_deleted cb') \<and>
   (no_rewrap s b xs \<longrightarrow> cb_acquired cb \<longrightarrow> cb_acquired cb')"
proof (induction xs arbitrary: s cb)
  case Nil
  then show ?case by (simp add: run_def)
next
  case (Cons x xs)
  have lt: "b < next_block s"
    using Cons.prems(1,2) by (fastforce simp add: wf_def fresh_def not_le [symmetric])
  show ?case
  proof (cases "blocks (step s x) b")
    case None
    have "blocks (run (step s x) xs) b = None"
      using run_dead [OF step_wf [OF Cons.prems(1)] _ None] lt step_next_block [of s x]
      by simp
    then show ?thesis using Cons.prems(3) by (simp add: run_Cons)
  next
    case (Some cb1)
    have one: "cb_ptr cb1 = cb_ptr cb \<and> (cb_deleted cb \<longrightarrow> cb_deleted cb1) \<and>
        (\<not> rewraps s b x \<longrightarrow> cb_acquired cb \<longrightarrow> cb_acquired cb1)"
      using step_blocks [OF Some] lt Cons.prems(2) by auto
    have rest: "cb_ptr cb' = cb_ptr cb1 \<and> (cb_deleted cb1 \<longrightarrow> cb_deleted cb') \<and>
        (no_rewrap (step s x) b xs \<longrightarrow> cb_acquired cb1 \<longrightarrow> cb_acquired cb')"
      using Cons.IH [OF step_wf [OF Cons.prems(1)] Some] Cons.prems(3) by (simp add: run_Cons)
    show ?thesis using one rest by simp
  qed
qed

section \<open>A destroyed resource does not come back\<close>






section \<open>Acquiring the exclusive handle\<close>

text \<open>
  Claim C1, as amended.  \<^verbatim>\<open>unique_ptr()\<close> on an empty handle, or on a handle whose
  block holds the null pointer, returns an empty \<^verbatim>\<open>std::unique_ptr\<close> and changes no
  block.  On a block with a non-null pointer it throws \<open>unique_ptr_already_acquired\<close>
  and leaves the state as it was when the block is acquired; otherwise it sets the
  acquired flag of the block and returns the address of the block.  When two handles
  \<open>j1\<close> and \<open>j2\<close> (the same or different) share a block whose pointer is not null and
  that is not yet acquired, the call through \<open>j1\<close> succeeds and a following call through
  \<open>j2\<close> throws \<open>unique_ptr_already_acquired\<close> and leaves the state as it was.

  The same holds with any statements \<open>ys\<close> between the two calls, in every state
  \<open>run init xs\<close> a program reaches: if handle \<open>i1\<close> names block \<open>c\<close>, whose pointer is
  not null and that is not acquired, the call through \<open>i1\<close> succeeds; and if no statement
  of \<open>ys\<close> rewraps \<open>c\<close>, the call through any handle \<open>i2\<close> that names \<open>c\<close> after
  \<open>ys\<close> throws \<open>unique_ptr_already_acquired\<close> and leaves the state as it was.
\<close>

theorem unique_ptr_once:
  "(handles s ! j = None \<longrightarrow> acquire s j = (Inr 0, s\<lparr>uniques := uniques s @ [0]\<rparr>)) \<and>
   (handles s ! j1 = Some b \<and> handles s ! j2 = Some b \<and> blocks s b = Some cb \<longrightarrow>
      acquire s j1 =
        (if cb_ptr cb = 0 then (Inr 0, s\<lparr>uniques := uniques s @ [0]\<rparr>)
         else if cb_acquired cb then (Inl unique_ptr_already_acquired, s)
         else (Inr (cb_ptr cb),
               s\<lparr>blocks := (blocks s)(b \<mapsto> cb\<lparr>cb_acquired := True\<rparr>),
                 uniques := uniques s @ [cb_ptr cb]\<rparr>)) \<and>
      (cb_ptr cb \<noteq> 0 \<and> \<not> cb_acquired cb \<longrightarrow>
         acquire (snd (acquire s j1)) j2 =
           (Inl unique_ptr_already_acquired, snd (acquire s j1)))) \<and>
   (i1 < length (handles (run init xs)) \<and> handles (run init xs) ! i1 = Some c \<and>
    blocks (run init xs) c = Some cc \<and> cb_ptr cc \<noteq> 0 \<and> \<not> cb_acquired cc \<longrightarrow>
      fst (acquire (run init xs) i1) = Inr (cb_ptr cc) \<and>
      (no_rewrap (snd (acquire (run init xs) i1)) c ys \<and>
       i2 < length (handles (run (snd (acquire (run init xs) i1)) ys)) \<and>
       handles (run (snd (acquire (run init xs) i1)) ys) ! i2 = Some c \<longrightarrow>
         acquire (run (snd (acquire (run init xs) i1)) ys) i2
           = (Inl unique_ptr_already_acquired, run (snd (acquire (run init xs) i1)) ys)))"
proof -
  have loc: "(handles s ! j = None \<longrightarrow> acquire s j = (Inr 0, s\<lparr>uniques := uniques s @ [0]\<rparr>)) \<and>
   (handles s ! j1 = Some b \<and> handles s ! j2 = Some b \<and> blocks s b = Some cb \<longrightarrow>
      acquire s j1 =
        (if cb_ptr cb = 0 then (Inr 0, s\<lparr>uniques := uniques s @ [0]\<rparr>)
         else if cb_acquired cb then (Inl unique_ptr_already_acquired, s)
         else (Inr (cb_ptr cb),
               s\<lparr>blocks := (blocks s)(b \<mapsto> cb\<lparr>cb_acquired := True\<rparr>),
                 uniques := uniques s @ [cb_ptr cb]\<rparr>)) \<and>
      (cb_ptr cb \<noteq> 0 \<and> \<not> cb_acquired cb \<longrightarrow>
         acquire (snd (acquire s j1)) j2 =
           (Inl unique_ptr_already_acquired, snd (acquire s j1))))"
    by (simp add: acquire_def unique_ptr_def member_defs)
  define s0 where "s0 = run init xs"
  define s1 where "s1 = snd (acquire s0 i1)"
  define s2 where "s2 = run s1 ys"
  have far: "fst (acquire s0 i1) = Inr (cb_ptr cc) \<and>
      (no_rewrap s1 c ys \<and> i2 < length (handles s2) \<and> handles s2 ! i2 = Some c \<longrightarrow>
         acquire s2 i2 = (Inl unique_ptr_already_acquired, s2))"
    if i1: "i1 < length (handles s0)" and h1: "handles s0 ! i1 = Some c"
      and bc: "blocks s0 c = Some cc" and nz: "cb_ptr cc \<noteq> 0" and na: "\<not> cb_acquired cc"
  proof -
    have w0: "wf s0" unfolding s0_def using run_wf [OF wf_init] .
    have first: "fst (acquire s0 i1) = Inr (cb_ptr cc)"
      using h1 bc nz na by (simp add: acquire_def unique_ptr_def member_defs)
    have b1: "blocks s1 c = Some (cc\<lparr>cb_acquired := True\<rparr>)"
      unfolding s1_def using h1 bc nz na
      by (simp add: acquire_def unique_ptr_def member_defs)
    have "s1 = step s0 (Acquire i1)" using i1 by (simp add: s1_def)
    then have w1: "wf s1" using step_wf [OF w0, of "Acquire i1"] by (simp only:)
    have second: "acquire s2 i2 = (Inl unique_ptr_already_acquired, s2)"
      if nr: "no_rewrap s1 c ys" and i2: "i2 < length (handles s2)"
        and h2: "handles s2 ! i2 = Some c"
    proof -
      have "handles_live s2"
        unfolding s2_def using run_wf [OF w1, of ys] by (simp add: wf_def)
      moreover have "Some c \<in> set (handles s2)"
        using i2 h2 nth_mem [of i2 "handles s2"] by simp
      ultimately obtain cb2 where b2: "blocks s2 c = Some cb2"
        unfolding handles_live_def by auto
      have "cb_ptr cb2 = cb_ptr cc \<and> cb_acquired cb2"
        using run_blocks [OF w1 b1 b2 [unfolded s2_def]] nr by simp
      then show ?thesis
        using h2 b2 nz by (simp add: acquire_def unique_ptr_def member_defs)
    qed
    show ?thesis using first second by blast
  qed
  show ?thesis
    using loc far unfolding s0_def s1_def s2_def by blast
qed

text \<open>The theorem at a handle and its copy over a resource from \<^verbatim>\<open>make_owned<int>\<close>:
  the copy acquires, then the original fails, at once and after the exclusive handle was
  destroyed and a third handle was copied and assigned.\<close>

theorem unique_ptr_once_witness:
  "handles (run init [Make_owned Plain, Copy 0]) ! 1 = Some 0 \<and>
   handles (run init [Make_owned Plain, Copy 0]) ! 0 = Some 0 \<and>
   blocks (run init [Make_owned Plain, Copy 0]) 0
     = Some \<lparr>cb_ptr = 1, cb_acquired = False, cb_deleted = False\<rparr> \<and>
   fst (acquire (run init [Make_owned Plain, Copy 0]) 1) = Inr 1 \<and>
   acquire (snd (acquire (run init [Make_owned Plain, Copy 0]) 1)) 0
     = (Inl unique_ptr_already_acquired, snd (acquire (run init [Make_owned Plain, Copy 0]) 1)) \<and>
   no_rewrap (snd (acquire (run init [Make_owned Plain, Copy 0]) 1)) 0
     [Destroy_unique 0, Copy 1, New_unique, From_unique Plain 1, Assign 1 3] \<and>
   handles (run (snd (acquire (run init [Make_owned Plain, Copy 0]) 1))
     [Destroy_unique 0, Copy 1, New_unique, From_unique Plain 1, Assign 1 3])
     = [Some 0, Some 1, Some 0, Some 1] \<and>
   fst (acquire (run (snd (acquire (run init [Make_owned Plain, Copy 0]) 1))
     [Destroy_unique 0, Copy 1, New_unique, From_unique Plain 1, Assign 1 3]) 2)
     = Inl unique_ptr_already_acquired"
  using unique_ptr_once [of "run init [Make_owned Plain, Copy 0]" 0 1 0 0
      "\<lparr>cb_ptr = 1, cb_acquired = False, cb_deleted = False\<rparr>"
      1 "[Make_owned Plain, Copy 0]" 0
      "\<lparr>cb_ptr = 1, cb_acquired = False, cb_deleted = False\<rparr>"
      "[Destroy_unique 0, Copy 1, New_unique, From_unique Plain 1, Assign 1 3]" 2]
  by (simp add: run_def init_def make_owned_def ctor_defs acquire_def unique_ptr_def
      owned_pointer_copy_def unique_ptr_destroy_def delete_resource_def unique_ptr_new_def
      owned_pointer_from_unique_def operator_assign_def release_def deleter_def member_defs)

text \<open>
  Claim C1 as stated asks the first of any two calls through handles that share a block to
  succeed and the second to throw.  Two handles share the block built from an empty
  \<^verbatim>\<open>std::unique_ptr\<close>: both calls return the empty exclusive handle and none throws.
  Two handles share the block of a resource from \<^verbatim>\<open>make_owned\<close> of a type with a
  virtual destructor; one acquires, the exclusive handle is moved into a new handle, and
  the call through the other succeeds as well.  And on the handle built from a link token
  the first call throws.
\<close>

theorem unique_ptr_twice_on_null_block:
  "handles (run init [Null_unique, From_unique Plain 0, Copy 0]) = [Some 0, Some 0] \<and>
   fst (acquire (run init [Null_unique, From_unique Plain 0, Copy 0]) 0) = Inr 0 \<and>
   fst (acquire (snd (acquire (run init [Null_unique, From_unique Plain 0, Copy 0]) 0)) 1)
     = Inr 0 \<and>
   handles (run init [Make_owned Virtual_dtor, Copy 0]) = [Some 0, Some 0] \<and>
   fst (acquire (run init [Make_owned Virtual_dtor, Copy 0]) 1) = Inr 1 \<and>
   handles (run init [Make_owned Virtual_dtor, Copy 0, Acquire 1, From_unique Virtual_dtor 0])
     = [Some 0, Some 0, Some 0] \<and>
   fst (acquire
     (run init [Make_owned Virtual_dtor, Copy 0, Acquire 1, From_unique Virtual_dtor 0]) 0)
     = Inr 1 \<and>
   handles (run init [New_unique, From_link Plain 0]) = [Some 0] \<and>
   fst (acquire (run init [New_unique, From_link Plain 0]) 0)
     = Inl unique_ptr_already_acquired"
  by (simp add: run_def init_def unique_ptr_null_def owned_pointer_from_unique_def
      make_owned_def unique_ptr_new_def owned_pointer_from_link_def link_def
      ctor_defs acquire_def unique_ptr_def owned_pointer_copy_def member_defs)

section \<open>Flags over whole programs\<close>

text \<open>
  Claim C2, as amended.  Over every program, from any state a program has reached, a
  control block that is still there keeps its address and keeps its deleted flag once
  that is set.  It keeps its acquired flag once that is set as long as no statement
  rewraps this block, that is, builds a handle from a \<^verbatim>\<open>std::unique_ptr\<close> whose
  resource still resolves to this block.  Such a statement attaches the new handle to the
  block and clears its acquired flag, and leaves every other block as it was.
\<close>

theorem flags_kept_unless_rewrapped:
  "(blocks (run init xs) b = Some cb \<and> blocks (run (run init xs) ys) b = Some cb' \<longrightarrow>
      cb_ptr cb' = cb_ptr cb \<and>
      (cb_deleted cb \<longrightarrow> cb_deleted cb') \<and>
      (no_rewrap (run init xs) b ys \<and> cb_acquired cb \<longrightarrow> cb_acquired cb')) \<and>
   (rewraps s b0 (From_unique k i) \<longrightarrow>
      handles (step s (From_unique k i)) = handles s @ [Some b0] \<and>
      \<not> acquired (step s (From_unique k i)) (Some b0) \<and>
      (\<forall>b'. b' \<noteq> b0 \<longrightarrow> blocks (step s (From_unique k i)) b' = blocks s b'))"
proof -
  have "cb_ptr cb' = cb_ptr cb \<and> (cb_deleted cb \<longrightarrow> cb_deleted cb') \<and>
      (no_rewrap (run init xs) b ys \<and> cb_acquired cb \<longrightarrow> cb_acquired cb')"
    if "blocks (run init xs) b = Some cb" "blocks (run (run init xs) ys) b = Some cb'"
    using run_blocks [OF run_wf [OF wf_init] that] by simp
  moreover have "handles (step s (From_unique k i)) = handles s @ [Some b0] \<and>
      \<not> acquired (step s (From_unique k i)) (Some b0) \<and>
      (\<forall>b'. b' \<noteq> b0 \<longrightarrow> blocks (step s (From_unique k i)) b' = blocks s b')"
    if r: "rewraps s b0 (From_unique k i)"
  proof -
    have b0: "snd (get_secret_when_possible s k (uniques s ! i)) = Some b0"
      using r by simp
    have "snd (get_secret_when_possible (s\<lparr>uniques := (uniques s)[i := 0]\<rparr>) k
        (uniques s ! i)) = Some b0"
      using b0 by simp
    from ctor_attach [OF this, of False] r
    have st: "step s (From_unique k i) =
        (set_acquired (s\<lparr>uniques := (uniques s)[i := 0]\<rparr>) (Some b0) False)
          \<lparr>handles := handles s @ [Some b0]\<rparr>"
      by (simp add: owned_pointer_from_unique_def Let_def)
    have live: "blocks s b0 \<noteq> None"
      using b0 by (simp add: gsp_snd_Some)
    show ?thesis
      unfolding st using live
      by (auto simp add: acquired_def set_acquired_def split: option.splits)
  qed
  ultimately show ?thesis by blast
qed

text \<open>A block whose resource was destroyed stays deleted and acquired while handles are
  copied, built and destroyed, and while another block is rewrapped; and the rewrap of a
  tracked resource clears the flag of its own block and of no other.\<close>

theorem flags_kept_unless_rewrapped_witness:
  "blocks (run init [Make_owned Virtual_dtor, Acquire 0, Destroy_unique 0]) 0
     = Some \<lparr>cb_ptr = 1, cb_acquired = True, cb_deleted = True\<rparr> \<and>
   no_rewrap (run init [Make_owned Virtual_dtor, Acquire 0, Destroy_unique 0]) 0
     [Copy 0, Null_unique, From_unique Plain 1, Destroy 0,
      Make_owned Virtual_dtor, Acquire 3, From_unique Virtual_dtor 2] \<and>
   rewraps (run init [Make_owned Virtual_dtor, Acquire 0, Destroy_unique 0,
      Copy 0, Null_unique, From_unique Plain 1, Destroy 0,
      Make_owned Virtual_dtor, Acquire 3]) 2 (From_unique Virtual_dtor 2) \<and>
   blocks (run (run init [Make_owned Virtual_dtor, Acquire 0, Destroy_unique 0])
     [Copy 0, Null_unique, From_unique Plain 1, Destroy 0,
      Make_owned Virtual_dtor, Acquire 3, From_unique Virtual_dtor 2]) 0
     = Some \<lparr>cb_ptr = 1, cb_acquired = True, cb_deleted = True\<rparr> \<and>
   rewraps (run init [Make_owned Virtual_dtor, Acquire 0]) 0 (From_unique Virtual_dtor 0) \<and>
   \<not> acquired (step (run init [Make_owned Virtual_dtor, Acquire 0])
         (From_unique Virtual_dtor 0)) (Some 0)"
  using flags_kept_unless_rewrapped
    [of "[Make_owned Virtual_dtor, Acquire 0, Destroy_unique 0]" 0
        "\<lparr>cb_ptr = 1, cb_acquired = True, cb_deleted = True\<rparr>"
        "[Copy 0, Null_unique, From_unique Plain 1, Destroy 0,
          Make_owned Virtual_dtor, Acquire 3, From_unique Virtual_dtor 2]"
        "\<lparr>cb_ptr = 1, cb_acquired = True, cb_deleted = True\<rparr>"
        "run init [Make_owned Virtual_dtor, Acquire 0]" 0 Virtual_dtor 0]
  by (simp add: run_def init_def make_owned_def ctor_defs acquire_def unique_ptr_def
      unique_ptr_destroy_def delete_resource_def delete_event_def owned_pointer_copy_def
      unique_ptr_null_def owned_pointer_from_unique_def owned_pointer_destroy_def
      release_def deleter_def member_defs)

text \<open>
  Claim C2 as stated asks the acquired flag never to revert.  A resource from
  \<^verbatim>\<open>make_owned\<close> of a type with a virtual destructor is acquired and its
  \<^verbatim>\<open>std::unique_ptr\<close> is moved into a new handle: the acquired flag of the one block is
  set before and clear after.
\<close>

theorem acquired_reverts_on_rewrap:
  "blocks (run init [Make_owned Virtual_dtor, Acquire 0]) 0
     = Some \<lparr>cb_ptr = 1, cb_acquired = True, cb_deleted = False\<rparr> \<and>
   blocks (run init [Make_owned Virtual_dtor, Acquire 0, From_unique Virtual_dtor 0]) 0
     = Some \<lparr>cb_ptr = 1, cb_acquired = False, cb_deleted = False\<rparr>"
  by (simp add: run_def init_def make_owned_def ctor_defs acquire_def unique_ptr_def
      owned_pointer_from_unique_def member_defs)

section \<open>One control block per tracked resource\<close>

text \<open>
  Claim C5, as amended.  In every state reached by a program, a live resource that
  carries a \<^verbatim>\<open>shared_secret\<close> has at most one live control block holding its address,
  provided the program is typed for this resource: each handle it built over the resource
  has a polymorphic element type.  What the program built over other resources does not
  matter.  The private constructor, in any state: when the element type is polymorphic
  and the weak pointer of the resource resolves to a live block, the new handle is
  attached to that block and no block is allocated; in every other case (so for every
  element type that is not polymorphic) a fresh block is allocated for the address.
\<close>

theorem one_block_per_beacon:
  "(typed_run init a xs \<and> has_beacon (run init xs) a \<and>
    blocks (run init xs) b1 = Some cb1 \<and> cb_ptr cb1 = a \<and>
    blocks (run init xs) b2 = Some cb2 \<and> cb_ptr cb2 = a \<longrightarrow> b1 = b2) \<and>
   (is_polymorphic k \<and> p \<noteq> 0 \<and> objects s p = Some r \<and> secret r = Some (Some b) \<and>
    blocks s b = Some cb \<longrightarrow>
      snd (owned_pointer_private s k p acq) = Some b \<and>
      next_block (fst (owned_pointer_private s k p acq)) = next_block s \<and>
      (\<forall>b'. (blocks (fst (owned_pointer_private s k p acq)) b' = None) = (blocks s b' = None))) \<and>
   (\<not> is_polymorphic k \<or> p = 0 \<or>
    (\<forall>r w. objects s p = Some r \<and> secret r = Some w \<longrightarrow> lock s w = None) \<longrightarrow>
      snd (owned_pointer_private s k p acq) = Some (next_block s) \<and>
      next_block (fst (owned_pointer_private s k p acq)) = Suc (next_block s) \<and>
      blocks (fst (owned_pointer_private s k p acq)) (next_block s)
        = Some \<lparr>cb_ptr = p, cb_acquired = acq, cb_deleted = False\<rparr>)"
proof -
  have one: "b1 = b2"
    if ty: "typed_run init a xs" and hb: "has_beacon (run init xs) a"
      and bs: "blocks (run init xs) b1 = Some cb1" "cb_ptr cb1 = a"
        "blocks (run init xs) b2 = Some cb2" "cb_ptr cb2 = a"
  proof -
    have bi: "beacon_inv (run init xs) a"
      using run_beacon [OF wf_init beacon_inv_init ty] .
    obtain r0 w0 where "objects (run init xs) a = Some r0" "secret r0 = Some w0"
      using hb by (auto simp add: has_beacon_def split: option.splits)
    then have "w0 = Some b1" "w0 = Some b2"
      using bi bs unfolding beacon_inv_def by blast+
    then show ?thesis by simp
  qed
  have att: "snd (owned_pointer_private s k p acq) = Some b \<and>
      next_block (fst (owned_pointer_private s k p acq)) = next_block s \<and>
      (\<forall>b'. (blocks (fst (owned_pointer_private s k p acq)) b' = None) = (blocks s b' = None))"
    if "is_polymorphic k" "p \<noteq> 0" "objects s p = Some r" "secret r = Some (Some b)"
      "blocks s b = Some cb"
  proof -
    have "snd (get_secret_when_possible s k p) = Some b"
      using that by (simp add: gsp_snd_Some)
    from ctor_attach [OF this, of acq] show ?thesis by simp
  qed
  have new: "snd (owned_pointer_private s k p acq) = Some (next_block s) \<and>
      next_block (fst (owned_pointer_private s k p acq)) = Suc (next_block s) \<and>
      blocks (fst (owned_pointer_private s k p acq)) (next_block s)
        = Some \<lparr>cb_ptr = p, cb_acquired = acq, cb_deleted = False\<rparr>"
    if "\<not> is_polymorphic k \<or> p = 0 \<or>
      (\<forall>r w. objects s p = Some r \<and> secret r = Some w \<longrightarrow> lock s w = None)"
  proof -
    have "snd (get_secret_when_possible s k p) = None"
      using that
      by (auto simp add: get_secret_when_possible_def split: option.splits)
    from ctor_fresh [OF this, of acq] show ?thesis by simp
  qed
  show ?thesis
    using one att new by blast
qed

text \<open>The rewrap of a tracked resource of a type with a virtual destructor attaches to
  its one block, also in a program that builds a handle with an element type that is not
  polymorphic over a second such resource; the same program over \<^verbatim>\<open>int\<close>
  allocates.\<close>

theorem one_block_per_beacon_witness:
  "typed_run init 1 [Make_owned Virtual_dtor, Acquire 0, Make_owned Virtual_dtor, Acquire 1,
      From_link Plain 1, From_link Virtual_dtor 0] \<and>
   \<not> typed_run init 2 [Make_owned Virtual_dtor, Acquire 0, Make_owned Virtual_dtor, Acquire 1,
      From_link Plain 1, From_link Virtual_dtor 0] \<and>
   has_beacon (run init [Make_owned Virtual_dtor, Acquire 0, Make_owned Virtual_dtor,
      Acquire 1, From_link Plain 1, From_link Virtual_dtor 0]) 1 \<and>
   blocks (run init [Make_owned Virtual_dtor, Acquire 0, Make_owned Virtual_dtor, Acquire 1,
      From_link Plain 1, From_link Virtual_dtor 0]) 0
     = Some \<lparr>cb_ptr = 1, cb_acquired = True, cb_deleted = False\<rparr> \<and>
   blocks (run init [Make_owned Virtual_dtor, Acquire 0, Make_owned Virtual_dtor, Acquire 1,
      From_link Plain 1, From_link Virtual_dtor 0]) 1
     = Some \<lparr>cb_ptr = 2, cb_acquired = True, cb_deleted = False\<rparr> \<and>
   blocks (run init [Make_owned Virtual_dtor, Acquire 0, Make_owned Virtual_dtor, Acquire 1,
      From_link Plain 1, From_link Virtual_dtor 0]) 2
     = Some \<lparr>cb_ptr = 2, cb_acquired = True, cb_deleted = False\<rparr> \<and>
   blocks (run init [Make_owned Virtual_dtor, Acquire 0, Make_owned Virtual_dtor, Acquire 1,
      From_link Plain 1, From_link Virtual_dtor 0]) 3 = None \<and>
   handles (run init [Make_owned Virtual_dtor, Acquire 0, Make_owned Virtual_dtor, Acquire 1,
      From_link Plain 1, From_link Virtual_dtor 0])
     = [Some 0, Some 1, Some 2, Some 0] \<and>
   snd (owned_pointer_private (run init [Make_owned Virtual_dtor, Acquire 0]) Virtual_dtor 1
     True) = Some 0 \<and>
   snd (owned_pointer_private (run init [Make_owned Plain, Acquire 0]) Plain 1 True) = Some 1"
  using one_block_per_beacon
    [of 1 "[Make_owned Virtual_dtor, Acquire 0, Make_owned Virtual_dtor, Acquire 1,
          From_link Plain 1, From_link Virtual_dtor 0]" 0
        "\<lparr>cb_ptr = 1, cb_acquired = True, cb_deleted = False\<rparr>" 0
        "\<lparr>cb_ptr = 1, cb_acquired = True, cb_deleted = False\<rparr>"
        Virtual_dtor 1 "run init [Make_owned Virtual_dtor, Acquire 0]"
        "\<lparr>secret = Some (Some 0)\<rparr>" 0
        "\<lparr>cb_ptr = 1, cb_acquired = True, cb_deleted = False\<rparr>" True]
    one_block_per_beacon
    [of 0 "[]" 0 "\<lparr>cb_ptr = 0, cb_acquired = True, cb_deleted = False\<rparr>" 0
        "\<lparr>cb_ptr = 0, cb_acquired = True, cb_deleted = False\<rparr>"
        Plain 1 "run init [Make_owned Plain, Acquire 0]"
        "\<lparr>secret = None\<rparr>" 0
        "\<lparr>cb_ptr = 1, cb_acquired = True, cb_deleted = False\<rparr>" True]
  by (simp add: run_def init_def make_owned_def ctor_defs acquire_def unique_ptr_def
      owned_pointer_from_link_def link_def has_beacon_def member_defs)

text \<open>
  Claim C5 as stated asks for exactly one control block per tracked resource at any time.
  A resource of a type that is not polymorphic, made by \<^verbatim>\<open>make_owned\<close>, acquired and
  then observed through a link token, is live and has two live control blocks.
\<close>

theorem two_blocks_for_plain_resource:
  "objects (run init [Make_owned Plain, Acquire 0, From_link Plain 0]) 1
     = Some \<lparr>secret = None\<rparr> \<and>
   blocks (run init [Make_owned Plain, Acquire 0, From_link Plain 0]) 0
     = Some \<lparr>cb_ptr = 1, cb_acquired = True, cb_deleted = False\<rparr> \<and>
   blocks (run init [Make_owned Plain, Acquire 0, From_link Plain 0]) 1
     = Some \<lparr>cb_ptr = 1, cb_acquired = True, cb_deleted = False\<rparr> \<and>
   handles (run init [Make_owned Plain, Acquire 0, From_link Plain 0]) = [Some 0, Some 1]"
  by (simp add: run_def init_def make_owned_def ctor_defs acquire_def unique_ptr_def
      owned_pointer_from_link_def link_def member_defs)

section \<open>The destruction beacon\<close>







section \<open>Every resource has at most one owner\<close>

lemma safe_init: "safe init"
  using wf_init by (simp add: safe_def weak_bounded_def weak_back_def owned_def init_def)

lemma weak_handles [simp]:
  "weak_bounded (s\<lparr>handles := hs\<rparr>) = weak_bounded s"
  "weak_back (s\<lparr>handles := hs\<rparr>) = weak_back s"
  "owned (s\<lparr>handles := hs\<rparr>) = owned s"
  by (simp_all add: weak_bounded_def weak_back_def owned_def)

lemma weak_uniques [simp]:
  "weak_bounded (s\<lparr>uniques := us\<rparr>) = weak_bounded s"
  "weak_back (s\<lparr>uniques := us\<rparr>) = weak_back s"
  by (simp_all add: weak_bounded_def weak_back_def)

lemma evolves_weak_bounded: "evolves s s' \<Longrightarrow> weak_bounded s \<Longrightarrow> weak_bounded s'"
  unfolding evolves_def weak_bounded_def by metis

lemma evolves_weak_back:
  assumes "evolves s s'" and "weak_back s"
  shows "weak_back s'"
  unfolding weak_back_def
proof (intro allI impI)
  fix a r b cb
  assume o: "objects s' a = Some r" and sr: "secret r = Some (Some b)"
    and bl: "blocks s' b = Some cb"
  have "objects s a = Some r"
    using assms(1) o by (simp add: evolves_def)
  moreover obtain cb0 where "blocks s b = Some cb0" "cb_ptr cb = cb_ptr cb0"
    using evolves_blocks [OF assms(1) bl] by auto
  ultimately show "cb_ptr cb = a"
    using assms(2) sr unfolding weak_back_def by auto
qed

text \<open>An emptied \<^verbatim>\<open>unique_ptr\<close>: the others hold what they held, and none of them holds
  what it held.\<close>

lemma distinct_filter_update:
  "distinct (filter P xs) \<Longrightarrow> \<not> P z \<Longrightarrow> distinct (filter P (xs[i := z]))"
proof (induction xs arbitrary: i)
  case Nil
  then show ?case by simp
next
  case (Cons x xs)
  show ?case
  proof (cases i)
    case 0
    then show ?thesis using Cons.prems by (cases "P x") auto
  next
    case (Suc n)
    have "set (xs[n := z]) \<subseteq> insert z (set xs)"
      by (rule set_update_subset_insert)
    then have "x \<notin> set (filter P (xs[n := z]))" if "P x" "x \<notin> set (filter P xs)"
      using that Cons.prems(2) by auto
    then show ?thesis
      using Cons.IH [of n] Cons.prems Suc by auto
  qed
qed

lemma unique_not_elsewhere:
  "distinct (filter P xs) \<Longrightarrow> i < length xs \<Longrightarrow> P (xs ! i) \<Longrightarrow> \<not> P z \<Longrightarrow>
   xs ! i \<notin> set (xs[i := z])"
proof (induction xs arbitrary: i)
  case Nil
  then show ?case by simp
next
  case (Cons x xs)
  show ?case
  proof (cases i)
    case 0
    then show ?thesis using Cons.prems by auto
  next
    case (Suc n)
    have n: "n < length xs" "P (xs ! n)" using Cons.prems Suc by simp_all
    have "xs ! n \<in> set (filter P xs)" using n by simp
    then have "xs ! n \<noteq> x" using Cons.prems(1) n by (cases "P x") auto
    moreover have "xs ! n \<notin> set (xs[n := z])"
      using Cons.IH [of n] Cons.prems(1,4) n by (cases "P x") auto
    ultimately show ?thesis using Suc by simp
  qed
qed

lemma ownedI:
  assumes "distinct (filter (\<lambda>a. 0 < a) (uniques s))"
    and "\<And>a. a \<in> set (uniques s) \<Longrightarrow> 0 < a \<Longrightarrow> objects s a \<noteq> None"
    and "\<And>a b cb. a \<in> set (uniques s) \<Longrightarrow> 0 < a \<Longrightarrow> blocks s b = Some cb \<Longrightarrow>
           cb_ptr cb = a \<Longrightarrow> cb_acquired cb"
    and "\<And>b cb. blocks s b = Some cb \<Longrightarrow> \<not> cb_acquired cb \<Longrightarrow> 0 < cb_ptr cb \<Longrightarrow>
           objects s (cb_ptr cb) \<noteq> None"
    and "\<And>b cb b' cb'. blocks s b = Some cb \<Longrightarrow> \<not> cb_acquired cb \<Longrightarrow> 0 < cb_ptr cb \<Longrightarrow>
           blocks s b' = Some cb' \<Longrightarrow> cb_ptr cb' = cb_ptr cb \<Longrightarrow> b' \<noteq> b \<Longrightarrow>
           cb_acquired cb'"
  shows "owned s"
  unfolding owned_def using assms by simp

lemma owned_distinct: "owned s \<Longrightarrow> distinct (filter (\<lambda>a. 0 < a) (uniques s))"
  by (simp add: owned_def)

lemma owned_unique_live:
  "owned s \<Longrightarrow> a \<in> set (uniques s) \<Longrightarrow> 0 < a \<Longrightarrow> objects s a \<noteq> None"
  by (simp add: owned_def)

lemma owned_unique_acquired:
  "owned s \<Longrightarrow> a \<in> set (uniques s) \<Longrightarrow> 0 < a \<Longrightarrow> blocks s b = Some cb \<Longrightarrow>
   cb_ptr cb = a \<Longrightarrow> cb_acquired cb"
  by (simp add: owned_def)

lemma owned_block_live:
  "owned s \<Longrightarrow> blocks s b = Some cb \<Longrightarrow> \<not> cb_acquired cb \<Longrightarrow> 0 < cb_ptr cb \<Longrightarrow>
   objects s (cb_ptr cb) \<noteq> None"
  by (simp add: owned_def)

lemma owned_block_others:
  "owned s \<Longrightarrow> blocks s b = Some cb \<Longrightarrow> \<not> cb_acquired cb \<Longrightarrow> 0 < cb_ptr cb \<Longrightarrow>
   blocks s b' = Some cb' \<Longrightarrow> cb_ptr cb' = cb_ptr cb \<Longrightarrow> b' \<noteq> b \<Longrightarrow> cb_acquired cb'"
  unfolding owned_def by blast

lemma owned_update_null:
  assumes "owned s"
  shows "owned (s\<lparr>uniques := (uniques s)[i := 0]\<rparr>)"
proof (rule ownedI)
  show "distinct (filter (\<lambda>a. 0 < a) (uniques (s\<lparr>uniques := (uniques s)[i := 0]\<rparr>)))"
    using owned_distinct [OF assms] distinct_filter_update [of "\<lambda>a. 0 < a" "uniques s" 0 i]
    by simp
next
  fix a assume "a \<in> set (uniques (s\<lparr>uniques := (uniques s)[i := 0]\<rparr>))" "0 < a"
  then have a: "a \<in> set (uniques s)"
    using set_update_subset_insert [of "uniques s" i 0] by auto
  show "objects (s\<lparr>uniques := (uniques s)[i := 0]\<rparr>) a \<noteq> None"
    using owned_unique_live [OF assms a \<open>0 < a\<close>] by simp
  fix b cb
  assume "blocks (s\<lparr>uniques := (uniques s)[i := 0]\<rparr>) b = Some cb" "cb_ptr cb = a"
  then show "cb_acquired cb"
    using owned_unique_acquired [OF assms a \<open>0 < a\<close>, of b cb] by simp
next
  fix b cb
  assume "blocks (s\<lparr>uniques := (uniques s)[i := 0]\<rparr>) b = Some cb" "\<not> cb_acquired cb"
    "0 < cb_ptr cb"
  then show "objects (s\<lparr>uniques := (uniques s)[i := 0]\<rparr>) (cb_ptr cb) \<noteq> None"
    using owned_block_live [OF assms, of b cb] by simp
next
  fix b cb b' cb'
  assume "blocks (s\<lparr>uniques := (uniques s)[i := 0]\<rparr>) b = Some cb" "\<not> cb_acquired cb"
    "0 < cb_ptr cb" "blocks (s\<lparr>uniques := (uniques s)[i := 0]\<rparr>) b' = Some cb'"
    "cb_ptr cb' = cb_ptr cb" "b' \<noteq> b"
  then show "cb_acquired cb'"
    using owned_block_others [OF assms, of b cb b' cb'] by simp
qed


lemma owned_evolves:
  assumes "owned s" and "evolves s s'"
    and live_u: "\<And>a. a \<in> set (uniques s) \<Longrightarrow> 0 < a \<Longrightarrow> objects s' a \<noteq> None"
    and live_b: "\<And>b cb. blocks s' b = Some cb \<Longrightarrow> \<not> cb_acquired cb \<Longrightarrow> 0 < cb_ptr cb \<Longrightarrow>
           objects s' (cb_ptr cb) \<noteq> None"
  shows "owned s'"
proof -
  have u: "uniques s' = uniques s" using assms(2) by (simp add: evolves_def)
  show ?thesis
  proof (rule ownedI)
  show "distinct (filter (\<lambda>a. 0 < a) (uniques s'))"
    using owned_distinct [OF assms(1)] by (simp add: u)
next
    fix a assume a: "a \<in> set (uniques s')" "0 < a"
    show "objects s' a \<noteq> None" using live_u a by (simp add: u)
    fix b cb assume b: "blocks s' b = Some cb" "cb_ptr cb = a"
    obtain cb0 where c0: "blocks s b = Some cb0" "cb_ptr cb = cb_ptr cb0"
      "cb_acquired cb = cb_acquired cb0"
      using evolves_blocks [OF assms(2) b(1)] by auto
    have "a \<in> set (uniques s)" using a(1) by (simp add: u)
    moreover have "cb_ptr cb0 = a" using c0(2) b(2) by simp
    ultimately have "cb_acquired cb0"
      using owned_unique_acquired [OF assms(1) _ a(2) c0(1)] by blast
    then show "cb_acquired cb" by (simp add: c0(3))
next
    fix b cb assume b: "blocks s' b = Some cb" "\<not> cb_acquired cb" "0 < cb_ptr cb"
    show "objects s' (cb_ptr cb) \<noteq> None" using live_b b .
    fix b' cb' assume b': "blocks s' b' = Some cb'" "cb_ptr cb' = cb_ptr cb" "b' \<noteq> b"
    obtain cb0 where c0: "blocks s b = Some cb0" "cb_ptr cb = cb_ptr cb0"
      "cb_acquired cb = cb_acquired cb0"
      using evolves_blocks [OF assms(2) b(1)] by auto
    obtain cb0' where c0': "blocks s b' = Some cb0'" "cb_ptr cb' = cb_ptr cb0'"
      "cb_acquired cb' = cb_acquired cb0'"
      using evolves_blocks [OF assms(2) b'(1)] by auto
    show "cb_acquired cb'"
      using owned_block_others [OF assms(1) c0(1) _ _ c0'(1)] b b' c0 c0' by simp
  qed
qed

lemma objects_delete_resource:
  "objects (delete_resource s p) a = (if 0 < p \<and> a = p then None else objects s a)"
  by (auto simp add: delete_resource_def delete_event_def set_deleted_def Let_def
      split: option.splits)

lemma blocks_deleter_self: "blocks (deleter s b) b = None"
  by (simp add: deleter_def Let_def split: option.splits)

lemma objects_deleter:
  "objects (deleter s b) a =
     (case blocks s b of None \<Rightarrow> objects s a
      | Some cb \<Rightarrow> if \<not> cb_acquired cb \<and> 0 < cb_ptr cb \<and> a = cb_ptr cb then None
                   else objects s a)"
  by (simp add: deleter_def Let_def objects_delete_resource split: option.splits)

lemma unique_ptr_destroy_owned:
  assumes "owned s" and "i < length (uniques s)"
  shows "owned (unique_ptr_destroy s i)"
proof -
  define s1 where "s1 = s\<lparr>uniques := (uniques s)[i := 0]\<rparr>"
  define a where "a = uniques s ! i"
  have o1: "owned s1" unfolding s1_def using owned_update_null [OF assms(1)] .
  have ain: "a \<in> set (uniques s)" using assms(2) by (simp add: a_def)
  have eq: "unique_ptr_destroy s i = delete_resource s1 a"
    by (simp add: unique_ptr_destroy_def Let_def s1_def a_def)
  have "owned (delete_resource s1 a)"
  proof (rule owned_evolves [OF o1 evolves_delete_resource])
    fix a' assume a': "a' \<in> set (uniques s1)" "0 < a'"
    have "a' \<noteq> a" if "0 < a"
      using unique_not_elsewhere [OF owned_distinct [OF assms(1)] assms(2), of 0] that a'
      by (auto simp add: s1_def a_def)
    then show "objects (delete_resource s1 a) a' \<noteq> None"
      using owned_unique_live [OF o1 a'] by (auto simp add: objects_delete_resource)
  next
    fix b cb
    assume b: "blocks (delete_resource s1 a) b = Some cb" "\<not> cb_acquired cb" "0 < cb_ptr cb"
    obtain cb0 where c0: "blocks s1 b = Some cb0" "cb_ptr cb = cb_ptr cb0"
      "cb_acquired cb = cb_acquired cb0"
      using evolves_blocks [OF evolves_delete_resource b(1)] by auto
    have "cb_ptr cb0 \<noteq> a"
      using owned_unique_acquired [OF assms(1) ain, of b cb0] c0 b by (auto simp add: s1_def)
    then show "objects (delete_resource s1 a) (cb_ptr cb) \<noteq> None"
      using owned_block_live [OF o1 c0(1)] c0 b by (auto simp add: objects_delete_resource)
  qed
  then show ?thesis by (simp add: eq)
qed

lemma release_owned:
  assumes "owned s"
  shows "owned (release s h)"
proof (cases h)
  case None
  then show ?thesis using assms by (simp add: release_def)
next
  case (Some b)
  show ?thesis
  proof (cases "Some b \<in> set (handles s) \<or> blocks s b = None")
    case True
    then show ?thesis using assms Some by (auto simp add: release_def deleter_def)
  next
    case False
    then obtain cb where cb: "blocks s b = Some cb" by auto
    have eq: "release s h = deleter s b" using Some False by (simp add: release_def)
    have "owned (deleter s b)"
    proof (rule owned_evolves [OF assms evolves_deleter])
      fix a assume a: "a \<in> set (uniques s)" "0 < a"
      have "\<not> (\<not> cb_acquired cb \<and> a = cb_ptr cb)"
        using owned_unique_acquired [OF assms a cb] by auto
      then show "objects (deleter s b) a \<noteq> None"
        using owned_unique_live [OF assms a] by (auto simp add: objects_deleter cb)
    next
      fix b' cb'
      assume b': "blocks (deleter s b) b' = Some cb'" "\<not> cb_acquired cb'" "0 < cb_ptr cb'"
      obtain cb0 where c0: "blocks s b' = Some cb0" "cb_ptr cb' = cb_ptr cb0"
        "cb_acquired cb' = cb_acquired cb0"
        using evolves_blocks [OF evolves_deleter b'(1)] by auto
      have ne: "b' \<noteq> b" using b'(1) blocks_deleter_self [of s b] by auto
      have "\<not> (\<not> cb_acquired cb \<and> cb_ptr cb' = cb_ptr cb)"
        using owned_block_others [OF assms c0(1) _ _ cb] c0 b' ne by auto
      then show "objects (deleter s b) (cb_ptr cb') \<noteq> None"
        using owned_block_live [OF assms c0(1)] c0 b' by (auto simp add: objects_deleter cb)
    qed
    then show ?thesis by (simp add: eq)
  qed
qed

lemma owned_set_acquired_True:
  assumes "owned s"
  shows "owned (set_acquired s h True)"
proof (rule ownedI)
  show "distinct (filter (\<lambda>a. 0 < a) (uniques (set_acquired s h True)))"
    using owned_distinct [OF assms] by simp
next
    fix a assume a: "a \<in> set (uniques (set_acquired s h True))" "0 < a"
    show "objects (set_acquired s h True) a \<noteq> None"
      using owned_unique_live [OF assms, of a] a by simp
    fix b cb assume b: "blocks (set_acquired s h True) b = Some cb" "cb_ptr cb = a"
    obtain cb0 where c0: "blocks s b = Some cb0" "cb_ptr cb = cb_ptr cb0"
      "cb_acquired cb = cb_acquired cb0 \<or> cb_acquired cb"
      using set_acquired_blocks [OF b(1)] by auto
    have "a \<in> set (uniques s)" using a(1) by simp
    moreover have "cb_ptr cb0 = a" using c0(2) b(2) by simp
    ultimately have "cb_acquired cb0"
      using owned_unique_acquired [OF assms _ a(2) c0(1)] by blast
    then show "cb_acquired cb" using c0(3) by blast
next
    fix b cb
    assume b: "blocks (set_acquired s h True) b = Some cb" "\<not> cb_acquired cb" "0 < cb_ptr cb"
    obtain cb0 where c0: "blocks s b = Some cb0" "cb_ptr cb = cb_ptr cb0"
      "cb_acquired cb = cb_acquired cb0"
      using set_acquired_blocks [OF b(1)] b(2) by auto
    show "objects (set_acquired s h True) (cb_ptr cb) \<noteq> None"
      using owned_block_live [OF assms c0(1)] c0 b by simp
    fix b' cb'
    assume b': "blocks (set_acquired s h True) b' = Some cb'" "cb_ptr cb' = cb_ptr cb" "b' \<noteq> b"
    obtain cb0' where c0': "blocks s b' = Some cb0'" "cb_ptr cb' = cb_ptr cb0'"
      "cb_acquired cb' = cb_acquired cb0' \<or> cb_acquired cb'"
      using set_acquired_blocks [OF b'(1)] by auto
    show "cb_acquired cb'"
      using owned_block_others [OF assms c0(1) _ _ c0'(1)] b b' c0 c0' by auto
qed

lemma owned_append_unique:
  assumes "owned s"
    and "0 < a \<Longrightarrow> a \<notin> set (uniques s) \<and> objects s a \<noteq> None \<and>
           (\<forall>b cb. blocks s b = Some cb \<longrightarrow> cb_ptr cb = a \<longrightarrow> cb_acquired cb)"
  shows "owned (s\<lparr>uniques := uniques s @ [a]\<rparr>)"
proof (rule ownedI)
  show "distinct (filter (\<lambda>a. 0 < a) (uniques (s\<lparr>uniques := uniques s @ [a]\<rparr>)))"
    using owned_distinct [OF assms(1)] assms(2) by auto
next
    fix a' assume a': "a' \<in> set (uniques (s\<lparr>uniques := uniques s @ [a]\<rparr>))" "0 < a'"
    show "objects (s\<lparr>uniques := uniques s @ [a]\<rparr>) a' \<noteq> None"
      using owned_unique_live [OF assms(1), of a'] assms(2) a' by auto
    fix b cb
    assume "blocks (s\<lparr>uniques := uniques s @ [a]\<rparr>) b = Some cb" "cb_ptr cb = a'"
    then show "cb_acquired cb"
      using owned_unique_acquired [OF assms(1), of a' b cb] assms(2) a' by auto
next
    fix b cb
    assume b: "blocks (s\<lparr>uniques := uniques s @ [a]\<rparr>) b = Some cb" "\<not> cb_acquired cb"
      "0 < cb_ptr cb"
    show "objects (s\<lparr>uniques := uniques s @ [a]\<rparr>) (cb_ptr cb) \<noteq> None"
      using owned_block_live [OF assms(1), of b cb] b by simp
    fix b' cb'
    assume "blocks (s\<lparr>uniques := uniques s @ [a]\<rparr>) b' = Some cb'" "cb_ptr cb' = cb_ptr cb"
      "b' \<noteq> b"
    then show "cb_acquired cb'"
      using owned_block_others [OF assms(1), of b cb b' cb'] b by simp
qed

lemma acquire_owned:
  assumes "owned s"
  shows "owned (snd (acquire s j))"
proof -
  define h where "h = handles s ! j"
  show ?thesis
  proof (cases "get_pointer s h \<noteq> 0 \<and> \<not> acquired s h")
    case True
    then obtain b cb where h: "h = Some b" and cb: "blocks s b = Some cb"
      and p: "0 < cb_ptr cb" and na: "\<not> cb_acquired cb"
      by (auto simp add: get_pointer_def acquired_def split: option.splits)
    define a where "a = cb_ptr cb"
    define s1 where "s1 = set_acquired s h True"
    have o1: "owned s1" unfolding s1_def using owned_set_acquired_True [OF assms] .
    have eq: "snd (acquire s j) = s1\<lparr>uniques := uniques s1 @ [a]\<rparr>"
      using True h cb
      by (simp add: acquire_def unique_ptr_def h_def [symmetric] s1_def a_def get_pointer_def)
    have "a \<notin> set (uniques s1)"
    proof
      assume "a \<in> set (uniques s1)"
      then have "a \<in> set (uniques s)" by (simp add: s1_def)
      then have "cb_acquired cb"
        using owned_unique_acquired [OF assms _ _ cb] p by (simp add: a_def)
      then show False using na by simp
    qed
    moreover have "objects s1 a \<noteq> None"
      using owned_block_live [OF assms cb na p] by (simp add: a_def s1_def)
    moreover have "cb_acquired cb'" if b': "blocks s1 b' = Some cb'" "cb_ptr cb' = a" for b' cb'
    proof (cases "b' = b")
      case True
      then show ?thesis using b'(1) cb by (auto simp add: s1_def h set_acquired_def)
    next
      case False
      obtain cb0' where c0': "blocks s b' = Some cb0'" "cb_ptr cb' = cb_ptr cb0'"
        "cb_acquired cb' = cb_acquired cb0' \<or> cb_acquired cb'"
        using set_acquired_blocks [OF b'(1) [unfolded s1_def]] by auto
      show ?thesis
        using owned_block_others [OF assms cb na p c0'(1)] c0' b'(2) False
        by (auto simp add: a_def)
    qed
    ultimately show ?thesis
      unfolding eq using owned_append_unique [OF o1, of a] by blast
  next
    case False
    then have "snd (acquire s j) = s \<or> snd (acquire s j) = s\<lparr>uniques := uniques s @ [0]\<rparr>"
      by (auto simp add: acquire_def unique_ptr_def h_def [symmetric])
    then show ?thesis
      using assms owned_append_unique [OF assms, of 0] by auto
  qed
qed

lemma owned_counters [simp]:
  "owned (s\<lparr>next_block := n\<rparr>) = owned s"
  "owned (s\<lparr>next_addr := m\<rparr>) = owned s"
  by (simp_all add: owned_def)

lemma owned_objects_grow:
  assumes "owned s" and "\<And>a. objects s a \<noteq> None \<Longrightarrow> objs a \<noteq> None"
  shows "owned (s\<lparr>objects := objs\<rparr>)"
proof (rule ownedI)
  show "distinct (filter (\<lambda>a. 0 < a) (uniques (s\<lparr>objects := objs\<rparr>)))"
    using owned_distinct [OF assms(1)] by simp
next
  fix a assume a: "a \<in> set (uniques (s\<lparr>objects := objs\<rparr>))" "0 < a"
  show "objects (s\<lparr>objects := objs\<rparr>) a \<noteq> None"
    using owned_unique_live [OF assms(1), of a] a assms(2) by simp
  fix b cb assume "blocks (s\<lparr>objects := objs\<rparr>) b = Some cb" "cb_ptr cb = a"
  then show "cb_acquired cb"
    using owned_unique_acquired [OF assms(1), of a b cb] a by simp
next
  fix b cb
  assume b: "blocks (s\<lparr>objects := objs\<rparr>) b = Some cb" "\<not> cb_acquired cb" "0 < cb_ptr cb"
  show "objects (s\<lparr>objects := objs\<rparr>) (cb_ptr cb) \<noteq> None"
    using owned_block_live [OF assms(1), of b cb] b assms(2) by simp
  fix b' cb'
  assume "blocks (s\<lparr>objects := objs\<rparr>) b' = Some cb'" "cb_ptr cb' = cb_ptr cb" "b' \<noteq> b"
  then show "cb_acquired cb'"
    using owned_block_others [OF assms(1), of b cb b' cb'] b by simp
qed

lemma owned_new_block:
  assumes "owned s" and "blocks s nb = None"
    and new: "acq \<or> p = 0 \<or>
       (objects s p \<noteq> None \<and> p \<notin> set (uniques s) \<and>
        (\<forall>b cb. blocks s b = Some cb \<longrightarrow> cb_ptr cb = p \<longrightarrow> cb_acquired cb))"
  shows "owned (s\<lparr>blocks := (blocks s)(nb \<mapsto>
           \<lparr>cb_ptr = p, cb_acquired = acq, cb_deleted = False\<rparr>)\<rparr>)"
    (is "owned ?s'")
proof (rule ownedI)
  show "distinct (filter (\<lambda>a. 0 < a) (uniques ?s'))"
    using owned_distinct [OF assms(1)] by simp
next
  fix a assume a: "a \<in> set (uniques ?s')" "0 < a"
  show "objects ?s' a \<noteq> None"
    using owned_unique_live [OF assms(1), of a] a by simp
  fix b cb assume b: "blocks ?s' b = Some cb" "cb_ptr cb = a"
  show "cb_acquired cb"
  proof (cases "b = nb")
    case True
    then have "cb_ptr cb = p" "cb_acquired cb = acq" using b(1) by auto
    then show ?thesis using new a b(2) by auto
  next
    case False
    then have "blocks s b = Some cb" using b(1) by simp
    then show ?thesis
      using owned_unique_acquired [OF assms(1), of a b cb] a b(2) by simp
  qed
next
  fix b cb
  assume b: "blocks ?s' b = Some cb" "\<not> cb_acquired cb" "0 < cb_ptr cb"
  show "objects ?s' (cb_ptr cb) \<noteq> None"
  proof (cases "b = nb")
    case True
    then have "cb_ptr cb = p" "cb_acquired cb = acq" using b(1) by auto
    then show ?thesis using new b(2,3) by auto
  next
    case False
    then have "blocks s b = Some cb" using b(1) by simp
    then show ?thesis using owned_block_live [OF assms(1), of b cb] b by simp
  qed
  fix b' cb'
  assume b': "blocks ?s' b' = Some cb'" "cb_ptr cb' = cb_ptr cb" "b' \<noteq> b"
  show "cb_acquired cb'"
  proof (cases "b = nb")
    case True
    then have n: "cb_ptr cb = p" "cb_acquired cb = acq" using b(1) by auto
    have "blocks s b' = Some cb'" using b'(1,3) True by simp
    then show ?thesis using new n b(2,3) b'(2) by auto
  next
    case False
    then have old: "blocks s b = Some cb" using b(1) by simp
    show ?thesis
    proof (cases "b' = nb")
      case True
      then have n': "cb_ptr cb' = p" "cb_acquired cb' = acq" using b'(1) by auto
      show ?thesis
      proof (rule ccontr)
        assume "\<not> cb_acquired cb'"
        then have "\<not> acq" using n' by simp
        moreover have "0 < p" using n' b'(2) b(3) by simp
        ultimately have "\<forall>b cb. blocks s b = Some cb \<longrightarrow> cb_ptr cb = p \<longrightarrow> cb_acquired cb"
          using new by auto
        then have "cb_acquired cb" using old n' b'(2) by auto
        then show False using b(2) by simp
      qed
    next
      case False
      then have "blocks s b' = Some cb'" using b'(1) by simp
      then show ?thesis
        using owned_block_others [OF assms(1) old b(2,3), of b' cb'] b'(2,3) by simp
    qed
  qed
qed

lemma owned_set_acquired_False:
  assumes "owned s" and cb: "blocks s b = Some cb" and p: "0 < cb_ptr cb"
    and live: "objects s (cb_ptr cb) \<noteq> None" and nu: "cb_ptr cb \<notin> set (uniques s)"
    and oth: "\<And>b' cb'. blocks s b' = Some cb' \<Longrightarrow> cb_ptr cb' = cb_ptr cb \<Longrightarrow> b' \<noteq> b \<Longrightarrow>
           cb_acquired cb'"
  shows "owned (set_acquired s (Some b) False)" (is "owned ?s'")
proof -
  have bl: "blocks ?s' = (blocks s)(b \<mapsto> cb\<lparr>cb_acquired := False\<rparr>)"
    using cb by (simp add: set_acquired_def)
  show ?thesis
  proof (rule ownedI)
    show "distinct (filter (\<lambda>a. 0 < a) (uniques ?s'))"
      using owned_distinct [OF assms(1)] by simp
  next
    fix a assume a: "a \<in> set (uniques ?s')" "0 < a"
    show "objects ?s' a \<noteq> None"
      using owned_unique_live [OF assms(1), of a] a by simp
    fix b1 cb1 assume b1: "blocks ?s' b1 = Some cb1" "cb_ptr cb1 = a"
    show "cb_acquired cb1"
    proof (cases "b1 = b")
      case True
      then have "cb_ptr cb1 = cb_ptr cb" using b1(1) by (auto simp add: bl)
      then show ?thesis using nu a(1) b1(2) by simp
    next
      case False
      then have "blocks s b1 = Some cb1" using b1(1) by (simp add: bl)
      then show ?thesis
        using owned_unique_acquired [OF assms(1), of a b1 cb1] a b1(2) by simp
    qed
  next
    fix b1 cb1
    assume b1: "blocks ?s' b1 = Some cb1" "\<not> cb_acquired cb1" "0 < cb_ptr cb1"
    show "objects ?s' (cb_ptr cb1) \<noteq> None"
    proof (cases "b1 = b")
      case True
      then have "cb_ptr cb1 = cb_ptr cb" using b1(1) by (auto simp add: bl)
      then show ?thesis using live by simp
    next
      case False
      then have "blocks s b1 = Some cb1" using b1(1) by (simp add: bl)
      then show ?thesis using owned_block_live [OF assms(1), of b1 cb1] b1 by simp
    qed
    fix b2 cb2
    assume b2: "blocks ?s' b2 = Some cb2" "cb_ptr cb2 = cb_ptr cb1" "b2 \<noteq> b1"
    show "cb_acquired cb2"
    proof (cases "b1 = b")
      case True
      then have e: "cb_ptr cb1 = cb_ptr cb" using b1(1) by (auto simp add: bl)
      have "blocks s b2 = Some cb2" using b2(1,3) True by (simp add: bl)
      then show ?thesis using oth [of b2 cb2] b2(2,3) e True by simp
    next
      case False
      then have old: "blocks s b1 = Some cb1" using b1(1) by (simp add: bl)
      show ?thesis
      proof (cases "b2 = b")
        case True
        then have "cb_ptr cb2 = cb_ptr cb" using b2(1) by (auto simp add: bl)
        then have "cb_acquired cb1" using oth [OF old] b2(2) False by simp
        then show ?thesis using b1(2) by simp
      next
        case False
        then have "blocks s b2 = Some cb2" using b2(1) by (simp add: bl)
        then show ?thesis
          using owned_block_others [OF assms(1) old b1(2,3), of b2 cb2] b2(2,3) by simp
      qed
    qed
  qed
qed

lemma wf_fresh_block: "wf s \<Longrightarrow> blocks s (next_block s) = None"
  by (simp add: wf_def fresh_def)

lemma ctor_owned:
  assumes "owned s" and "wf s" and "weak_back s"
    and new: "acq \<or> p = 0 \<or>
       (objects s p \<noteq> None \<and> p \<notin> set (uniques s) \<and>
        (\<forall>b cb. blocks s b = Some cb \<longrightarrow> cb_ptr cb = p \<longrightarrow> cb_acquired cb))"
    and c: "owned_pointer_private s k p acq = (s', h)"
  shows "owned s'"
proof (cases "snd (get_secret_when_possible s k p)")
  case (Some b0)
  have s': "s' = set_acquired s (Some b0) acq"
    using ctor_attach [OF Some, of acq] c by simp
  obtain r cb0 where p0: "p \<noteq> 0" and o: "objects s p = Some r" "secret r = Some (Some b0)"
    and cb0: "blocks s b0 = Some cb0"
    using Some by (auto simp add: gsp_snd_Some)
  have ptr: "cb_ptr cb0 = p"
    using assms(3) o cb0 unfolding weak_back_def by blast
  show ?thesis
  proof (cases acq)
    case True
    then show ?thesis using owned_set_acquired_True [OF assms(1)] by (simp add: s')
  next
    case False
    then have n: "objects s p \<noteq> None" "p \<notin> set (uniques s)"
      "\<And>b cb. blocks s b = Some cb \<Longrightarrow> cb_ptr cb = p \<Longrightarrow> cb_acquired cb"
      using new p0 by auto
    have "owned (set_acquired s (Some b0) False)"
      using owned_set_acquired_False [OF assms(1) cb0] p0 n ptr by simp
    then show ?thesis using False by (simp add: s')
  qed
next
  case None
  define s1 where "s1 = s\<lparr>blocks := (blocks s)(next_block s \<mapsto>
           \<lparr>cb_ptr = p, cb_acquired = acq, cb_deleted = False\<rparr>)\<rparr>"
  have o1: "owned s1"
    unfolding s1_def using owned_new_block [OF assms(1) wf_fresh_block [OF assms(2)] new] .
  define objs where "objs = (if is_polymorphic k \<and> p \<noteq> 0 \<and> has_beacon s p
                    then (objects s1)(p \<mapsto> \<lparr>secret = Some (Some (next_block s))\<rparr>)
                    else objects s1)"
  have eq: "s' = (s1\<lparr>objects := objs\<rparr>)\<lparr>next_block := Suc (next_block s)\<rparr>"
    using ctor_fresh [OF None, of acq] c by (simp add: s1_def objs_def)
  have "owned (s1\<lparr>objects := objs\<rparr>)"
    by (rule owned_objects_grow [OF o1]) (auto simp add: objs_def)
  then show ?thesis unfolding eq by (simp only: owned_counters)
qed

lemma ctor_weak:
  assumes "wf s" and wb: "weak_bounded s" and wk: "weak_back s"
    and c: "owned_pointer_private s k p acq = (s', h)"
  shows "weak_bounded s' \<and> weak_back s'"
proof (cases "snd (get_secret_when_possible s k p)")
  case (Some b0)
  have s': "s' = set_acquired s (Some b0) acq"
    using ctor_attach [OF Some, of acq] c by simp
  have "weak_bounded s'"
    using wb by (simp add: s' weak_bounded_def)
  moreover have "weak_back s'"
    unfolding weak_back_def
  proof (intro allI impI)
    fix a r b cb
    assume o: "objects s' a = Some r" and sr: "secret r = Some (Some b)"
      and bl: "blocks s' b = Some cb"
    obtain cb0 where "blocks s b = Some cb0" "cb_ptr cb = cb_ptr cb0"
      using set_acquired_blocks [OF bl [unfolded s']] by auto
    then show "cb_ptr cb = a"
      using wk o sr unfolding weak_back_def by (auto simp add: s')
  qed
  ultimately show ?thesis by simp
next
  case None
  define nb where "nb = next_block s"
  define t where "t = (is_polymorphic k \<and> p \<noteq> 0 \<and> has_beacon s p)"
  have eq: "s' = s\<lparr>blocks := (blocks s)(nb \<mapsto>
           \<lparr>cb_ptr = p, cb_acquired = acq, cb_deleted = False\<rparr>),
        next_block := Suc nb,
        objects := (if t then (objects s)(p \<mapsto> \<lparr>secret = Some (Some nb)\<rparr>)
                    else objects s)\<rparr>"
    using ctor_fresh [OF None, of acq] c by (simp add: nb_def t_def)
  have old: "b < nb" if "objects s a = Some r" "secret r = Some (Some b)" for a r b
    using wb that unfolding weak_bounded_def nb_def by blast
  have "weak_bounded s'"
    unfolding weak_bounded_def
  proof (intro allI impI)
    fix a r b
    assume o: "objects s' a = Some r" and sr: "secret r = Some (Some b)"
    show "b < next_block s'"
    proof (cases "t \<and> a = p")
      case True
      then show ?thesis using o sr by (auto simp add: eq)
    next
      case False
      then have o0: "objects s a = Some r" using o by (auto simp add: eq split: if_splits)
      show ?thesis using old [OF o0 sr] by (simp add: eq)
    qed
  qed
  moreover have "weak_back s'"
    unfolding weak_back_def
  proof (intro allI impI)
    fix a r b cb
    assume o: "objects s' a = Some r" and sr: "secret r = Some (Some b)"
      and bl: "blocks s' b = Some cb"
    show "cb_ptr cb = a"
    proof (cases "t \<and> a = p")
      case True
      then have "b = nb" using o sr by (auto simp add: eq)
      then show ?thesis using bl True by (auto simp add: eq)
    next
      case False
      then have o0: "objects s a = Some r" using o by (auto simp add: eq split: if_splits)
      then have "b \<noteq> nb" using old [OF o0 sr] by simp
      then have "blocks s b = Some cb" using bl by (simp add: eq)
      then show ?thesis using wk o0 sr unfolding weak_back_def by blast
    qed
  qed
  ultimately show ?thesis by simp
qed

lemma new_object_weak:
  assumes "weak_bounded s" and "weak_back s" and "w = None \<or> w = Some None"
  shows "weak_bounded (s\<lparr>objects := (objects s)(p \<mapsto> \<lparr>secret = w\<rparr>), next_addr := n\<rparr>)"
    and "weak_back (s\<lparr>objects := (objects s)(p \<mapsto> \<lparr>secret = w\<rparr>), next_addr := n\<rparr>)"
  using assms unfolding weak_bounded_def weak_back_def by (auto split: if_splits)

lemma set_acquired_weak:
  assumes "weak_bounded s" and "weak_back s"
  shows "weak_bounded (set_acquired s h v)" and "weak_back (set_acquired s h v)"
proof -
  show "weak_bounded (set_acquired s h v)"
    using assms(1) by (simp add: weak_bounded_def)
  show "weak_back (set_acquired s h v)"
    unfolding weak_back_def
  proof (intro allI impI)
    fix a r b cb
    assume o: "objects (set_acquired s h v) a = Some r" and sr: "secret r = Some (Some b)"
      and bl: "blocks (set_acquired s h v) b = Some cb"
    obtain cb0 where "blocks s b = Some cb0" "cb_ptr cb = cb_ptr cb0"
      using set_acquired_blocks [OF bl] by auto
    then show "cb_ptr cb = a"
      using assms(2) o sr unfolding weak_back_def by auto
  qed
qed

lemma safe_wf: "safe s \<Longrightarrow> wf s"
  by (simp add: safe_def)

lemma safe_owned: "safe s \<Longrightarrow> owned s"
  by (simp add: safe_def)

lemma wf_unique_fresh: "wf s \<Longrightarrow> Suc (next_addr s) \<notin> set (uniques s)"
  using wf_uniques_all [of s] by auto

lemma make_owned_safe:
  assumes "safe s"
  shows "safe (make_owned s k)"
proof -
  define p where "p = Suc (next_addr s)"
  define w where "w = (if has_virtual_destructor k then Some None else None :: weak_ptr option)"
  define s0 where "s0 = s\<lparr>objects := (objects s)(p \<mapsto> \<lparr>secret = w\<rparr>), next_addr := p\<rparr>"
  have wfs: "wf s" and wb: "weak_bounded s" and wk: "weak_back s" and ow: "owned s"
    using assms by (simp_all add: safe_def)
  have w0: "wf s0" unfolding s0_def p_def using new_object_wf [OF wfs] by simp
  have wb0: "weak_bounded s0" and wk0: "weak_back s0"
    unfolding s0_def using new_object_weak [OF wb wk, of w p p] by (simp_all add: w_def)
  have "owned (s\<lparr>objects := (objects s)(p \<mapsto> \<lparr>secret = w\<rparr>)\<rparr>)"
    by (rule owned_objects_grow [OF ow]) auto
  then have o0: "owned s0" by (simp add: s0_def)
  have new: "False \<or> p = 0 \<or>
       (objects s0 p \<noteq> None \<and> p \<notin> set (uniques s0) \<and>
        (\<forall>b cb. blocks s0 b = Some cb \<longrightarrow> cb_ptr cb = p \<longrightarrow> cb_acquired cb))"
    using wf_unique_fresh [OF wfs] wf_block_ptr [OF wfs] by (auto simp add: s0_def p_def)
  obtain s1 h where c: "owned_pointer_private s0 k p False = (s1, h)"
    by (cases "owned_pointer_private s0 k p False")
  have st: "make_owned s k = s1\<lparr>handles := handles s1 @ [h]\<rparr>"
    using c by (simp add: make_owned_def Let_def s0_def p_def w_def)
  have "owned s1" using ctor_owned [OF o0 w0 wk0 new c] .
  moreover have "weak_bounded s1 \<and> weak_back s1" using ctor_weak [OF w0 wb0 wk0 c] .
  moreover have "wf (make_owned s k)" using make_owned_wf [OF wfs] .
  ultimately show ?thesis by (simp add: safe_def st)
qed

lemma from_unique_safe:
  assumes "safe s" and "i < length (uniques s)"
  shows "safe (owned_pointer_from_unique s k i)"
proof -
  define p where "p = uniques s ! i"
  define s0 where "s0 = s\<lparr>uniques := (uniques s)[i := 0]\<rparr>"
  have wfs: "wf s" and wb: "weak_bounded s" and wk: "weak_back s" and ow: "owned s"
    using assms(1) by (simp_all add: safe_def)
  have "\<forall>a \<in> set ((uniques s)[i := 0]). a \<le> next_addr s"
    using wf_uniques_all [OF wfs] set_update_subset_insert [of "uniques s" i 0]
    by auto
  then have w0: "wf s0" unfolding s0_def using uniques_update_wf [OF wfs] by simp
  have wb0: "weak_bounded s0" and wk0: "weak_back s0"
    using wb wk by (simp_all add: s0_def)
  have o0: "owned s0" unfolding s0_def using owned_update_null [OF ow] .
  have pin: "p \<in> set (uniques s)" using assms(2) by (simp add: p_def)
  have new: "False \<or> p = 0 \<or>
       (objects s0 p \<noteq> None \<and> p \<notin> set (uniques s0) \<and>
        (\<forall>b cb. blocks s0 b = Some cb \<longrightarrow> cb_ptr cb = p \<longrightarrow> cb_acquired cb))"
  proof (cases "p = 0")
    case True
    then show ?thesis by simp
  next
    case False
    then have pos: "0 < p" by simp
    have "objects s0 p \<noteq> None"
      using owned_unique_live [OF ow pin pos] by (simp add: s0_def)
    moreover have "p \<notin> set (uniques s0)"
      using unique_not_elsewhere [OF owned_distinct [OF ow] assms(2), of 0] pos
      by (simp add: s0_def p_def)
    moreover have "cb_acquired cb" if "blocks s0 b = Some cb" "cb_ptr cb = p" for b cb
      using owned_unique_acquired [OF ow pin pos, of b cb] that by (simp add: s0_def)
    ultimately show ?thesis by blast
  qed
  obtain s1 h where c: "owned_pointer_private s0 k p False = (s1, h)"
    by (cases "owned_pointer_private s0 k p False")
  have st: "owned_pointer_from_unique s k i = s1\<lparr>handles := handles s1 @ [h]\<rparr>"
    using c by (simp add: owned_pointer_from_unique_def Let_def s0_def p_def)
  have "owned s1" using ctor_owned [OF o0 w0 wk0 new c] .
  moreover have "weak_bounded s1 \<and> weak_back s1" using ctor_weak [OF w0 wb0 wk0 c] .
  moreover have "wf (owned_pointer_from_unique s k i)" using from_unique_wf [OF wfs assms(2)] .
  ultimately show ?thesis by (simp add: safe_def st)
qed

lemma from_link_safe:
  assumes "safe s" and "i < length (uniques s)"
  shows "safe (owned_pointer_from_link s k (link s i))"
proof -
  have wfs: "wf s" and wb: "weak_bounded s" and wk: "weak_back s" and ow: "owned s"
    using assms(1) by (simp_all add: safe_def)
  obtain s1 h where c: "owned_pointer_private s k (uniques s ! i) True = (s1, h)"
    by (cases "owned_pointer_private s k (uniques s ! i) True")
  have st: "owned_pointer_from_link s k (link s i) = s1\<lparr>handles := handles s1 @ [h]\<rparr>"
    using c by (simp add: owned_pointer_from_link_def link_def)
  have "owned s1" using ctor_owned [OF ow wfs wk _ c] by simp
  moreover have "weak_bounded s1 \<and> weak_back s1" using ctor_weak [OF wfs wb wk c] .
  moreover have "wf (owned_pointer_from_link s k (link s i))"
    using from_link_wf [OF wfs assms(2)] .
  ultimately show ?thesis by (simp add: safe_def st)
qed

lemma unique_ptr_new_safe:
  assumes "safe s"
  shows "safe (unique_ptr_new s)"
proof -
  define p where "p = Suc (next_addr s)"
  define s0 where "s0 = s\<lparr>objects := (objects s)(p \<mapsto> \<lparr>secret = None\<rparr>), next_addr := p\<rparr>"
  have wfs: "wf s" and wb: "weak_bounded s" and wk: "weak_back s" and ow: "owned s"
    using assms by (simp_all add: safe_def)
  have wb0: "weak_bounded s0" and wk0: "weak_back s0"
    unfolding s0_def using new_object_weak [OF wb wk, of None p p] by simp_all
  have "owned (s\<lparr>objects := (objects s)(p \<mapsto> \<lparr>secret = None\<rparr>)\<rparr>)"
    by (rule owned_objects_grow [OF ow]) auto
  then have o0: "owned s0" by (simp add: s0_def)
  have "owned (s0\<lparr>uniques := uniques s0 @ [p]\<rparr>)"
    using owned_append_unique [OF o0, of p] wf_unique_fresh [OF wfs] wf_block_ptr [OF wfs]
    by (auto simp add: s0_def p_def)
  moreover have "unique_ptr_new s = s0\<lparr>uniques := uniques s0 @ [p]\<rparr>"
    by (simp add: unique_ptr_new_def Let_def s0_def p_def)
  moreover have "wf (step s New_unique)" using step_wf [OF wfs] .
  ultimately show ?thesis using wb0 wk0 by (simp add: safe_def)
qed

lemma release_safe:
  assumes "wf (release s h)" and "weak_bounded s" and "weak_back s" and "owned s"
  shows "safe (release s h)"
  using assms evolves_release [of s h]
  by (simp add: safe_def release_owned evolves_weak_bounded evolves_weak_back)

lemma step_safe: "safe s \<Longrightarrow> safe (step s x)"
proof (cases x)
  case Null_handle
  assume "safe s" then show ?thesis
    using Null_handle step_wf [of s x] by (simp add: safe_def owned_pointer_null_def)
next
  case Null_unique
  assume s: "safe s" then show ?thesis
    using Null_unique step_wf [of s x] owned_append_unique [OF safe_owned [OF s], of 0]
    by (simp add: safe_def unique_ptr_null_def)
next
  case New_unique
  assume "safe s" then show ?thesis using New_unique by (simp add: unique_ptr_new_safe)
next
  case (Make_owned k)
  assume "safe s" then show ?thesis using Make_owned by (simp add: make_owned_safe)
next
  case (From_unique k i)
  assume "safe s" then show ?thesis using From_unique by (simp add: from_unique_safe)
next
  case (From_link k i)
  assume "safe s" then show ?thesis using From_link by (simp add: from_link_safe)
next
  case (Copy j)
  assume "safe s" then show ?thesis
    using Copy step_wf [of s x] by (simp add: safe_def owned_pointer_copy_def)
next
  case (Assign j k)
  assume s: "safe s"
  show ?thesis
  proof (cases "j < length (handles s) \<and> k < length (handles s)")
    case True
    have "wf (release (s\<lparr>handles := (handles s)[j := handles s ! k]\<rparr>) (handles s ! j))"
      using step_wf [OF safe_wf [OF s], of x] Assign True
      by (simp add: operator_assign_def Let_def)
    then show ?thesis
      using Assign True s release_safe [of "s\<lparr>handles := (handles s)[j := handles s ! k]\<rparr>"]
      by (simp add: operator_assign_def Let_def safe_def)
  next
    case False
    then show ?thesis using s Assign by auto
  qed
next
  case (Acquire j)
  assume s: "safe s"
  have wk: "weak_bounded (snd (acquire s j)) \<and> weak_back (snd (acquire s j))"
    using s set_acquired_weak [of s "handles s ! j" True]
    by (simp add: acquire_def unique_ptr_def safe_def)
  show ?thesis
    using Acquire s wk step_wf [OF safe_wf [OF s], of x] acquire_owned [OF safe_owned [OF s], of j]
    by (simp add: safe_def)
next
  case (Get j)
  assume "safe s" then show ?thesis using Get by simp
next
  case (Destroy j)
  assume s: "safe s"
  show ?thesis
  proof (cases "j < length (handles s)")
    case True
    have "wf (release (s\<lparr>handles := (handles s)[j := None]\<rparr>) (handles s ! j))"
      using step_wf [OF safe_wf [OF s], of x] Destroy True
      by (simp add: owned_pointer_destroy_def Let_def)
    then show ?thesis
      using Destroy True s release_safe [of "s\<lparr>handles := (handles s)[j := None]\<rparr>"]
      by (simp add: owned_pointer_destroy_def Let_def safe_def)
  next
    case False
    then show ?thesis using s Destroy by auto
  qed
next
  case (Destroy_unique i)
  assume s: "safe s"
  show ?thesis
  proof (cases "i < length (uniques s)")
    case True
    have ev: "evolves (s\<lparr>uniques := (uniques s)[i := 0]\<rparr>) (unique_ptr_destroy s i)"
      using evolves_delete_resource by (simp add: unique_ptr_destroy_def Let_def)
    have "weak_bounded (unique_ptr_destroy s i)" "weak_back (unique_ptr_destroy s i)"
      using evolves_weak_bounded [OF ev] evolves_weak_back [OF ev] s by (simp_all add: safe_def)
    then show ?thesis
      using Destroy_unique True step_wf [OF safe_wf [OF s], of x]
        unique_ptr_destroy_owned [OF safe_owned [OF s] True]
      by (simp add: safe_def)
  next
    case False
    then show ?thesis using s Destroy_unique by auto
  qed
qed

lemma run_safe: "safe s \<Longrightarrow> safe (run s xs)"
  by (induction xs arbitrary: s) (simp_all add: run_def step_safe)

text \<open>
  So in every state a program reaches, what a \<^verbatim>\<open>unique_ptr\<close> holds and what a block
  that is not acquired points to is a live resource (or null): the delete expression and
  the \<^verbatim>\<open>dynamic_cast\<close> of the private constructor only ever meet \<^verbatim>\<open>nullptr\<close> or
  a live resource.
\<close>

lemma no_dangling_owner:
  "(i < length (uniques (run init xs)) \<longrightarrow> uniques (run init xs) ! i \<noteq> 0 \<longrightarrow>
      objects (run init xs) (uniques (run init xs) ! i) \<noteq> None) \<and>
   (blocks (run init xs) b = Some cb \<longrightarrow> \<not> cb_acquired cb \<longrightarrow> cb_ptr cb \<noteq> 0 \<longrightarrow>
      objects (run init xs) (cb_ptr cb) \<noteq> None)"
  using owned_unique_live [OF safe_owned [OF run_safe [OF safe_init, of xs]],
      of "uniques (run init xs) ! i"]
    owned_block_live [OF safe_owned [OF run_safe [OF safe_init, of xs]], of b cb]
  by auto

section \<open>The scenarios of the unit tests\<close>

text \<open>The model run on the programs of \<^verbatim>\<open>ptr_owned_by_unique_ut.cpp\<close>, with the results the
  tests assert.\<close>

lemmas program_defs = run_def init_def owned_pointer_null_def unique_ptr_null_def
  unique_ptr_new_def make_owned_def owned_pointer_from_unique_def owned_pointer_from_link_def
  link_def owned_pointer_copy_def operator_assign_def owned_pointer_destroy_def
  unique_ptr_destroy_def acquire_def unique_ptr_def release_def deleter_def
  delete_resource_def delete_event_def ctor_defs member_defs get_def operator_bool_def
  use_count_def

text \<open>\<^verbatim>\<open>copyConstructorTest\<close>: after the copy acquired, both handles throw from
  \<^verbatim>\<open>unique_ptr()\<close>.\<close>

lemma test_copy_constructor:
  "fst (acquire (run init [Make_owned Plain, Copy 0, Acquire 1]) 0)
     = Inl unique_ptr_already_acquired \<and>
   fst (acquire (run init [Make_owned Plain, Copy 0, Acquire 1]) 1)
     = Inl unique_ptr_already_acquired \<and>
   handles (run init [Make_owned Plain, Copy 0, Acquire 1]) = [Some 0, Some 0] \<and>
   acquired (run init [Make_owned Plain, Copy 0, Acquire 1]) (Some 0)"
  by (simp add: program_defs)

text \<open>\<^verbatim>\<open>objectWillBeDeletedWhenMultipleSharedObjects\<close>: nine copies make a use count of
  ten, and the handle is not acquired.\<close>

lemma test_nine_copies:
  "use_count (run init [Make_owned Virtual_dtor, Copy 0, Copy 0, Copy 0, Copy 0, Copy 0,
       Copy 0, Copy 0, Copy 0, Copy 0]) (Some 0) = 10 \<and>
   \<not> acquired (run init [Make_owned Virtual_dtor, Copy 0, Copy 0, Copy 0, Copy 0, Copy 0,
       Copy 0, Copy 0, Copy 0, Copy 0]) (Some 0)"
  by (simp add: program_defs)

text \<open>\<^verbatim>\<open>forNullPointerInvokeUniquePtrHowManyYouWant\<close>: on an empty handle
  \<^verbatim>\<open>unique_ptr()\<close> returns null again and again and \<^verbatim>\<open>get()\<close> does not throw.\<close>

lemma test_null_handle:
  "fst (acquire (run init [Null_handle, Acquire 0, Acquire 0]) 0) = Inr 0 \<and>
   get (run init [Null_handle, Acquire 0, Acquire 0]) None = Inr 0"
  by (simp add: program_defs)

text \<open>\<^verbatim>\<open>runtimeErrorIsThrownWhenResourceDeleted\<close>: the exclusive handle leaves its scope,
  and the handle, an old copy and a new copy throw.\<close>

lemma test_runtime_error_when_deleted:
  "handles (run init [Make_owned Virtual_dtor, Copy 0, Acquire 0, Destroy_unique 0, Copy 0])
     = [Some 0, Some 0, Some 0] \<and>
   get (run init [Make_owned Virtual_dtor, Copy 0, Acquire 0, Destroy_unique 0, Copy 0])
     (Some 0) = Inl ptr_is_already_deleted"
  by (simp add: program_defs)

text \<open>\<^verbatim>\<open>isUniquePtrValidAfterOwnedPtrDeletion\<close>: the handle goes after it was acquired,
  and the resource stays with the exclusive handle.\<close>

lemma test_unique_valid_after_handle_deleted:
  "uniques (run init [Make_owned Virtual_dtor, Acquire 0, Destroy 0]) = [1] \<and>
   objects (run init [Make_owned Virtual_dtor, Acquire 0, Destroy 0]) 1
     = Some \<lparr>secret = Some (Some 0)\<rparr> \<and>
   blocks (run init [Make_owned Virtual_dtor, Acquire 0, Destroy 0]) 0 = None"
  by (simp add: program_defs)

text \<open>\<^verbatim>\<open>deleteAfterCopyDontInvalidateCopy\<close> and \<^verbatim>\<open>objectWillBeDeleted\<close>: one of two
  handles goes and the resource stays; the last one goes and the resource is deleted.\<close>

lemma test_delete_after_copy:
  "get (run init [Make_owned Virtual_dtor, Copy 0, Destroy 0]) (Some 0) = Inr 1 \<and>
   objects (run init [Make_owned Virtual_dtor, Copy 0, Destroy 0]) 1
     = Some \<lparr>secret = Some (Some 0)\<rparr> \<and>
   objects (run init [Make_owned Virtual_dtor, Copy 0, Destroy 0, Destroy 1]) 1 = None"
  by (simp add: program_defs)

text \<open>\<^verbatim>\<open>testMoveAndLinkSemantics\<close>: handles built from \<^verbatim>\<open>link(u)\<close> report acquired and
  leave \<open>u\<close> alone; the handle built from \<^verbatim>\<open>std::move(u)\<close> empties \<open>u\<close> and reports
  not acquired; no handle throws from \<^verbatim>\<open>get()\<close>.\<close>

lemma test_move_and_link:
  "acquired (run init [Make_owned Virtual_dtor, Acquire 0, From_link Polymorphic 0])
     (Some 0) \<and>
   uniques (run init [Make_owned Virtual_dtor, Acquire 0, From_link Polymorphic 0]) = [1] \<and>
   handles (run init [Make_owned Virtual_dtor, Acquire 0, From_link Polymorphic 0,
       From_link Virtual_dtor 0, From_unique Virtual_dtor 0])
     = [Some 0, Some 0, Some 0, Some 0] \<and>
   uniques (run init [Make_owned Virtual_dtor, Acquire 0, From_link Polymorphic 0,
       From_link Virtual_dtor 0, From_unique Virtual_dtor 0]) = [0] \<and>
   \<not> acquired (run init [Make_owned Virtual_dtor, Acquire 0, From_link Polymorphic 0,
       From_link Virtual_dtor 0, From_unique Virtual_dtor 0]) (Some 0) \<and>
   get (run init [Make_owned Virtual_dtor, Acquire 0, From_link Polymorphic 0,
       From_link Virtual_dtor 0, From_unique Virtual_dtor 0]) (Some 0) = Inr 1"
  by (simp add: program_defs)

text \<open>\<^verbatim>\<open>assertThatSharedStateWillBeUpdateAfterPtrOwnedDeletion\<close>: the first handle is gone
  when the exclusive handle is wrapped again, so a new block is made and the resource
  names it; destroying the resource through that handle makes it throw.\<close>

lemma test_shared_state_updated:
  "handles (run init [Make_owned Virtual_dtor, Acquire 0, Destroy 0, From_unique Virtual_dtor 0])
     = [None, Some 1] \<and>
   objects (run init [Make_owned Virtual_dtor, Acquire 0, Destroy 0, From_unique Virtual_dtor 0])
     1 = Some \<lparr>secret = Some (Some 1)\<rparr> \<and>
   get (run init [Make_owned Virtual_dtor, Acquire 0, Destroy 0, From_unique Virtual_dtor 0,
       Acquire 1, Destroy_unique 1]) (Some 1) = Inl ptr_is_already_deleted"
  by (simp add: program_defs)

text \<open>\<^verbatim>\<open>uniquePtrConstructor\<close>: a resource that was not made by \<^verbatim>\<open>make_owned\<close> is
  wrapped; the exclusive handle is left empty and the last handle deletes the resource.\<close>

lemma test_unique_ptr_constructor:
  "uniques (run init [New_unique, From_unique Virtual_dtor 0]) = [0] \<and>
   get (run init [New_unique, From_unique Virtual_dtor 0]) (Some 0) = Inr 1 \<and>
   objects (run init [New_unique, From_unique Virtual_dtor 0, Destroy 0]) 1 = None"
  by (simp add: program_defs)


end
